theory Spec2Isabelle
  imports Complex_Main
begin

section \<open>Values exchanged with the registry\<close>

text \<open>
  The alert loop of \<^verbatim>\<open>telegram_bot.py\<close> works on whatever \<^verbatim>\<open>r.json()\<close> returns, with
  no validation, so the snapshot is modelled as a Python value built from JSON: \<^verbatim>\<open>None\<close>,
  booleans, numbers, strings, lists and dicts. A number is a rational: every finite Python
  int or float is one, and Python compares ints and floats by their exact value. The
  non-finite floats (NaN, Infinity) have no counterpart here. A dict is the list of its
  items, keys distinct, looked up with \<open>map_of\<close>.
\<close>

datatype json =
    JNull
  | JBool bool
  | JNum rat
  | JStr string
  | JArr "json list"
  | JObj "(string \<times> json) list"

datatype py_error = AttributeError | TypeError | DeliveryError

text \<open>\<^verbatim>\<open>d.get(k, default)\<close>: only a dict has the method.\<close>

fun py_get :: "json \<Rightarrow> string \<Rightarrow> json \<Rightarrow> py_error + json" where
  "py_get (JObj kvs) k dflt = Inr (case map_of kvs k of None \<Rightarrow> dflt | Some v \<Rightarrow> v)"
| "py_get _ k dflt = Inl AttributeError"

text \<open>Truth value of a Python object, as used by \<^verbatim>\<open>x or {}\<close>.\<close>

fun py_truthy :: "json \<Rightarrow> bool" where
  "py_truthy JNull = False"
| "py_truthy (JBool b) = b"
| "py_truthy (JNum r) = (r \<noteq> 0)"
| "py_truthy (JStr s) = (s \<noteq> [])"
| "py_truthy (JArr xs) = (xs \<noteq> [])"
| "py_truthy (JObj kvs) = (kvs \<noteq> [])"

text \<open>
  \<^verbatim>\<open>for x in v\<close>: a list yields its elements, a string its characters, a dict its keys;
  anything else is not iterable.
\<close>

fun py_iter :: "json \<Rightarrow> py_error + json list" where
  "py_iter (JArr xs) = Inr xs"
| "py_iter (JStr s) = Inr (map (\<lambda>c. JStr [c]) s)"
| "py_iter (JObj kvs) = Inr (map (\<lambda>kv. JStr (fst kv)) kvs)"
| "py_iter _ = Inl TypeError"

text \<open>Numbers and booleans compare as numbers (\<^verbatim>\<open>True == 1\<close>).\<close>

fun num_of :: "json \<Rightarrow> rat option" where
  "num_of (JNum r) = Some r"
| "num_of (JBool b) = Some (if b then 1 else 0)"
| "num_of _ = None"

text \<open>
  \<^verbatim>\<open>a == b\<close> on these values never raises: numbers by value, strings and \<^verbatim>\<open>None\<close> by
  identity of content, lists element by element, dicts by size and then by looking each
  item of the left dict up in the right one.
\<close>

fun py_eq :: "json \<Rightarrow> json \<Rightarrow> bool"
  and py_eq_list :: "json list \<Rightarrow> json list \<Rightarrow> bool"
  and py_eq_items :: "(string \<times> json) list \<Rightarrow> (string \<times> json) list \<Rightarrow> bool" where
  "py_eq JNull b = (b = JNull)"
| "py_eq (JBool x) b = (num_of b = Some (if x then 1 else 0))"
| "py_eq (JNum r) b = (num_of b = Some r)"
| "py_eq (JStr x) b = (b = JStr x)"
| "py_eq (JArr xs) b = (case b of JArr ys \<Rightarrow> py_eq_list xs ys | _ \<Rightarrow> False)"
| "py_eq (JObj kvs) b =
     (case b of JObj kws \<Rightarrow> length kvs = length kws \<and> py_eq_items kvs kws | _ \<Rightarrow> False)"
| "py_eq_list [] ys = (ys = [])"
| "py_eq_list (x # xs) ys =
     (case ys of [] \<Rightarrow> False | y # ys' \<Rightarrow> py_eq x y \<and> py_eq_list xs ys')"
| "py_eq_items [] kws = True"
| "py_eq_items (kv # kvs) kws =
     ((case map_of kws (fst kv) of None \<Rightarrow> False | Some w \<Rightarrow> py_eq (snd kv) w)
      \<and> py_eq_items kvs kws)"

text \<open>Strings order by code point, position by position; a proper prefix is smaller.\<close>

fun str_lt :: "string \<Rightarrow> string \<Rightarrow> bool" where
  "str_lt [] [] = False"
| "str_lt [] (y # ys) = True"
| "str_lt (x # xs) [] = False"
| "str_lt (x # xs) (y # ys) =
     (if x = y then str_lt xs ys else (of_char x :: nat) < of_char y)"

text \<open>
  \<^verbatim>\<open>a < b\<close>: defined between two numbers, two strings and two lists (at the first pair
  of unequal elements, else by length); every other pairing raises \<^verbatim>\<open>TypeError\<close>.
\<close>

fun py_lt :: "json \<Rightarrow> json \<Rightarrow> py_error + bool"
  and list_lt :: "json list \<Rightarrow> json list \<Rightarrow> py_error + bool" where
  "py_lt (JArr xs) b = (case b of JArr ys \<Rightarrow> list_lt xs ys | _ \<Rightarrow> Inl TypeError)"
| "py_lt (JStr x) b = (case b of JStr y \<Rightarrow> Inr (str_lt x y) | _ \<Rightarrow> Inl TypeError)"
| "py_lt (JNum r) b = (case num_of b of Some q \<Rightarrow> Inr (r < q) | None \<Rightarrow> Inl TypeError)"
| "py_lt (JBool x) b =
     (case num_of b of Some q \<Rightarrow> Inr ((if x then 1 else 0) < q) | None \<Rightarrow> Inl TypeError)"
| "py_lt JNull b = Inl TypeError"
| "py_lt (JObj kvs) b = Inl TypeError"
| "list_lt [] ys = Inr (ys \<noteq> [])"
| "list_lt (x # xs) ys =
     (case ys of [] \<Rightarrow> Inr False
      | y # ys' \<Rightarrow> if py_eq x y then list_lt xs ys' else py_lt x y)"

text \<open>\<^verbatim>\<open>a > b\<close> is the reflected comparison: on these values it is \<^verbatim>\<open>b < a\<close>.\<close>

definition py_gt :: "json \<Rightarrow> json \<Rightarrow> py_error + bool" where
  "py_gt a b = py_lt b a"


section \<open>Alert kinds, cooldown keys and messages\<close>

text \<open>
  The four inline blocks of \<^verbatim>\<open>poll_alerts\<close> differ only in the threshold key, the default
  of \<^verbatim>\<open>thr.get\<close> and the direction of the comparison.
\<close>

datatype kind = T_high | T_low | H_high | H_low

fun bound_key :: "kind \<Rightarrow> string" where
  "bound_key T_high = ''t_high''"
| "bound_key T_low = ''t_low''"
| "bound_key H_high = ''h_high''"
| "bound_key H_low = ''h_low''"

fun default_bound :: "kind \<Rightarrow> json" where
  "default_bound T_high = JNum 999"
| "default_bound T_low = JNum (- 999)"
| "default_bound H_high = JNum 999"
| "default_bound H_low = JNum (- 999)"

fun beyond :: "kind \<Rightarrow> json \<Rightarrow> json \<Rightarrow> py_error + bool" where
  "beyond T_high v b = py_gt v b"
| "beyond T_low v b = py_lt v b"
| "beyond H_high v b = py_gt v b"
| "beyond H_low v b = py_lt v b"

text \<open>
  \<^verbatim>\<open>_last_alert\<close> is keyed by the tuple \<^verbatim>\<open>(lab_id, kind)\<close>. A list or a dict is unhashable
  and raises; equal numbers (\<^verbatim>\<open>1\<close>, \<^verbatim>\<open>1.0\<close>, \<^verbatim>\<open>True\<close>) are one key.
\<close>

datatype key = KNone | KNum rat | KStr string

fun key_of :: "json \<Rightarrow> py_error + key" where
  "key_of JNull = Inr KNone"
| "key_of (JBool b) = Inr (KNum (if b then 1 else 0))"
| "key_of (JNum r) = Inr (KNum r)"
| "key_of (JStr s) = Inr (KStr s)"
| "key_of (JArr xs) = Inl TypeError"
| "key_of (JObj kvs) = Inl TypeError"

text \<open>
  The text of the f-string is not rendered: a message is the tuple of the values the
  source interpolates into it.
\<close>

record message =
  msg_lab :: json
  msg_kind :: kind
  msg_value :: json
  msg_bound :: json
  msg_sensor :: json

section \<open>Environment and process state\<close>

text \<open>
  What the loop observes from outside is a parameter: the \<open>n\<close>-th reading of
  \<^verbatim>\<open>int(time.time())\<close>, whether the \<open>n\<close>-th call of \<^verbatim>\<open>bot.sendMessage\<close> returns or raises,
  the outcome of the \<open>n\<close>-th \<^verbatim>\<open>requests.get\<close> of the loop, and the order in which the
  interpreter iterates over the set \<^verbatim>\<open>KNOWN_CHATS\<close> once a member has been added to it
  (the language leaves that order open; it follows the hash table).
\<close>

datatype response = ConnectionFailed | BadStatus | NotJson | Parsed json

record env =
  alert_cooldown_sec :: int
  clock :: "nat \<Rightarrow> int"
  send_ok :: "nat \<Rightarrow> int \<Rightarrow> message \<Rightarrow> bool"
  fetch :: "nat \<Rightarrow> response"
  chat_order :: "int list \<Rightarrow> int \<Rightarrow> int list"

text \<open>
  The globals \<^verbatim>\<open>_last_alert\<close> and \<^verbatim>\<open>KNOWN_CHATS\<close> (a set, kept as the list of its members in
  iteration order), the number of clock readings, deliveries and fetches made so far, and
  the observable history: each delivered message and each timestamp written by
  \<^verbatim>\<open>track_alert\<close>, in order. The three counters index the environment; the source has
  no such variables.
\<close>

datatype event = Sent int message | Tracked key kind int

record state =
  last_alert :: "key \<times> kind \<Rightarrow> int option"
  known_chats :: "int list"
  ticks :: nat
  sends :: nat
  fetches :: nat
  trace :: "event list"

type_synonym command = "state \<Rightarrow> py_error option \<times> state"

definition skip :: command where
  "skip s = (None, s)"

text \<open>Two statements in sequence: an exception in the first skips the second.\<close>

definition seq :: "command \<Rightarrow> command \<Rightarrow> command" where
  "seq f g s = (case f s of (Some e, s') \<Rightarrow> (Some e, s') | (None, s') \<Rightarrow> g s')"

text \<open>A \<^verbatim>\<open>for\<close> loop over a list: an exception in the body leaves the loop.\<close>

fun for_each :: "('a \<Rightarrow> command) \<Rightarrow> 'a list \<Rightarrow> command" where
  "for_each f [] s = (None, s)"
| "for_each f (x # xs) s =
     (case f x s of (Some e, s') \<Rightarrow> (Some e, s') | (None, s') \<Rightarrow> for_each f xs s')"

section \<open>The functions of the alert loop\<close>

text \<open>\<^verbatim>\<open>_get\<close>: every failure of the request becomes the same error document.\<close>

fun registry_get :: "response \<Rightarrow> json" where
  "registry_get (Parsed j) = j"
| "registry_get _ = JObj [(''error'', JStr ''registry unreachable'')]"

text \<open>
  \<^verbatim>\<open>track_alert\<close>: the right-hand side reads the clock first, then the store hashes the
  key.
\<close>

definition track_alert :: "env \<Rightarrow> json \<Rightarrow> kind \<Rightarrow> command" where
  "track_alert env lab_id kind s =
     (let now = clock env (ticks s); s1 = s\<lparr>ticks := Suc (ticks s)\<rparr>
      in case key_of lab_id of
           Inl e \<Rightarrow> (Some e, s1)
         | Inr k \<Rightarrow>
             (None, s1\<lparr>last_alert := (last_alert s1)((k, kind) \<mapsto> now),
                       trace := trace s1 @ [Tracked k kind now]\<rparr>))"

text \<open>
  \<^verbatim>\<open>should_alert\<close>: the lookup hashes the key, then the clock is read; a pair without an
  entry counts as last fired at 0.
\<close>

definition should_alert :: "env \<Rightarrow> json \<Rightarrow> kind \<Rightarrow> state \<Rightarrow> (py_error + bool) \<times> state" where
  "should_alert env lab_id kind s =
     (case key_of lab_id of
        Inl e \<Rightarrow> (Inl e, s)
      | Inr k \<Rightarrow>
          (let last = (case last_alert s (k, kind) of None \<Rightarrow> 0 | Some v \<Rightarrow> v);
               now = clock env (ticks s)
           in (Inr (now - last \<ge> alert_cooldown_sec env), s\<lparr>ticks := Suc (ticks s)\<rparr>)))"

text \<open>\<^verbatim>\<open>bot.sendMessage(chat, msg)\<close>: returns, or raises out of the caller.\<close>

definition sendMessage :: "env \<Rightarrow> message \<Rightarrow> int \<Rightarrow> command" where
  "sendMessage env msg chat s =
     (let s1 = s\<lparr>sends := Suc (sends s)\<rparr>
      in if send_ok env (sends s) chat msg
         then (None, s1\<lparr>trace := trace s1 @ [Sent chat msg]\<rparr>)
         else (Some DeliveryError, s1))"

text \<open>The body of a taken \<^verbatim>\<open>if\<close>: deliver to every known chat, then record the firing.\<close>

definition fire :: "env \<Rightarrow> json \<Rightarrow> kind \<Rightarrow> message \<Rightarrow> command" where
  "fire env lab_id kind msg s =
     seq (for_each (sendMessage env msg) (known_chats s)) (track_alert env lab_id kind) s"

text \<open>
  One of the four blocks
  \<^verbatim>\<open>if v > thr.get(key, 999) and should_alert(lab_id, key): ...\<close>
  (with \<^verbatim>\<open><\<close> and \<^verbatim>\<open>-999\<close> for the low bounds). \<open>alert_if_due\<close> is the second
  conjunct with the body it guards; \<open>check\<close> evaluates the first conjunct before it.
\<close>

definition alert_if_due :: "env \<Rightarrow> kind \<Rightarrow> json \<Rightarrow> json \<Rightarrow> json \<Rightarrow> json \<Rightarrow> command" where
  "alert_if_due env kind lab_id sid thr v s =
     (case should_alert env lab_id kind s of
        (Inl e, s1) \<Rightarrow> (Some e, s1)
      | (Inr ok, s1) \<Rightarrow>
          if \<not> ok then (None, s1)
          else (case py_get thr (bound_key kind) JNull of
                  Inl e \<Rightarrow> (Some e, s1)
                | Inr shown \<Rightarrow>
                    fire env lab_id kind
                      \<lparr>msg_lab = lab_id, msg_kind = kind, msg_value = v,
                       msg_bound = shown, msg_sensor = sid\<rparr> s1))"

definition check :: "env \<Rightarrow> kind \<Rightarrow> json \<Rightarrow> json \<Rightarrow> json \<Rightarrow> json \<Rightarrow> command" where
  "check env kind lab_id sid thr v s =
     (case py_get thr (bound_key kind) (default_bound kind) of
        Inl e \<Rightarrow> (Some e, s)
      | Inr b \<Rightarrow>
          (case beyond kind v b of
             Inl e \<Rightarrow> (Some e, s)
           | Inr c \<Rightarrow>
               if \<not> c then (None, s) else alert_if_due env kind lab_id sid thr v s))"

text \<open>The body of \<^verbatim>\<open>for sensor in lab.get("sensors", [])\<close>.\<close>

definition eval_reading :: "env \<Rightarrow> json \<Rightarrow> json \<Rightarrow> json \<Rightarrow> json \<Rightarrow> json \<Rightarrow> command" where
  "eval_reading env lab_id sid thr t h =
     seq (if t \<noteq> JNull
          then seq (check env T_high lab_id sid thr t) (check env T_low lab_id sid thr t)
          else skip)
         (if h \<noteq> JNull
          then seq (check env H_high lab_id sid thr h) (check env H_low lab_id sid thr h)
          else skip)"

definition eval_sensor :: "env \<Rightarrow> json \<Rightarrow> json \<Rightarrow> json \<Rightarrow> command" where
  "eval_sensor env lab_id thr sensor s =
     (case py_get sensor ''reading'' JNull of
        Inl e \<Rightarrow> (Some e, s)
      | Inr r \<Rightarrow>
          (let rd = (if py_truthy r then r else JObj [])
           in case py_get sensor ''sensor_id'' JNull of
                Inl e \<Rightarrow> (Some e, s)
              | Inr sid \<Rightarrow>
                  (case py_get rd ''t'' JNull of
                     Inl e \<Rightarrow> (Some e, s)
                   | Inr t \<Rightarrow>
                       (case py_get rd ''h'' JNull of
                          Inl e \<Rightarrow> (Some e, s)
                        | Inr h \<Rightarrow> eval_reading env lab_id sid thr t h s))))"

text \<open>The body of \<^verbatim>\<open>for lab in labs\<close>.\<close>

definition eval_lab :: "env \<Rightarrow> json \<Rightarrow> command" where
  "eval_lab env lab s =
     (case py_get lab ''lab_id'' JNull of
        Inl e \<Rightarrow> (Some e, s)
      | Inr lab_id \<Rightarrow>
          (case py_get lab ''thresholds'' (JObj []) of
             Inl e \<Rightarrow> (Some e, s)
           | Inr thr \<Rightarrow>
               (case py_get lab ''sensors'' (JArr []) of
                  Inl e \<Rightarrow> (Some e, s)
                | Inr sensors \<Rightarrow>
                    (case py_iter sensors of
                       Inl e \<Rightarrow> (Some e, s)
                     | Inr xs \<Rightarrow> for_each (eval_sensor env lab_id thr) xs s))))"

text \<open>
  One iteration of \<^verbatim>\<open>while True\<close> in \<^verbatim>\<open>poll_alerts\<close>. \<^verbatim>\<open>time.sleep\<close> changes nothing
  but the time, which the next clock reading shows.
\<close>

definition poll_cycle :: "env \<Rightarrow> command" where
  "poll_cycle env s =
     (if known_chats s = [] then (None, s)
      else (let data = registry_get (fetch env (fetches s));
                s1 = s\<lparr>fetches := Suc (fetches s)\<rparr>
            in case py_get data ''labs'' (JArr []) of
                 Inl e \<Rightarrow> (Some e, s1)
               | Inr labs \<Rightarrow>
                   (case py_iter labs of
                      Inl e \<Rightarrow> (Some e, s1)
                    | Inr ls \<Rightarrow> for_each (eval_lab env) ls s1)))"

text \<open>
  \<^verbatim>\<open>KNOWN_CHATS.add(chat_id)\<close>, the only write of \<^verbatim>\<open>handle\<close> to the shared state. A
  chat already in the set changes nothing; otherwise the set has one member more, and
  \<open>chat_order\<close> gives the order in which it is iterated from then on. Nothing is
  assumed of that order.
\<close>

definition handle_start :: "env \<Rightarrow> int \<Rightarrow> state \<Rightarrow> state" where
  "handle_start env chat_id s =
     (if chat_id \<in> set (known_chats s) then s
      else s\<lparr>known_chats := chat_order env (known_chats s) chat_id\<rparr>)"

text \<open>
  The loop of \<^verbatim>\<open>poll_alerts\<close> never returns: it runs until an exception leaves it. A
  finite prefix of an execution is a schedule: \<open>Poll\<close> is one iteration of the loop,
  \<open>Start c\<close> is the handler registering chat \<open>c\<close> between two iterations. The handler
  thread writing to the set in the middle of an iteration is outside this model.
\<close>

datatype step = Poll | Start int

fun poll_alerts :: "env \<Rightarrow> step list \<Rightarrow> command" where
  "poll_alerts env [] s = (None, s)"
| "poll_alerts env (Poll # rest) s =
     (case poll_cycle env s of
        (Some e, s') \<Rightarrow> (Some e, s')
      | (None, s') \<Rightarrow> poll_alerts env rest s')"
| "poll_alerts env (Start c # rest) s = poll_alerts env rest (handle_start env c s)"

text \<open>The state at process start: both globals empty.\<close>

definition init :: state where
  "init = \<lparr>last_alert = Map.empty, known_chats = [], ticks = 0, sends = 0, fetches = 0,
           trace = []\<rparr>"

text \<open>The timestamps recorded for one (lab, kind) pair, oldest first.\<close>

fun timestamps :: "key \<times> kind \<Rightarrow> event list \<Rightarrow> int list" where
  "timestamps p [] = []"
| "timestamps p (Sent c m # es) = timestamps p es"
| "timestamps p (Tracked k kd ts # es) =
     (if p = (k, kd) then ts # timestamps p es else timestamps p es)"


section \<open>Concrete snapshots and environments\<close>

text \<open>Documents of the shape the registry's status endpoint returns.\<close>

definition sensor_json :: "string \<Rightarrow> json \<Rightarrow> json \<Rightarrow> json" where
  "sensor_json sid t h =
     JObj [(''sensor_id'', JStr sid), (''reading'', JObj [(''t'', t), (''h'', h)])]"

definition lab_json :: "string \<Rightarrow> (string \<times> json) list \<Rightarrow> json list \<Rightarrow> json" where
  "lab_json lab_id thr sensors =
     JObj [(''lab_id'', JStr lab_id), (''thresholds'', JObj thr), (''sensors'', JArr sensors)]"

definition status_json :: "json list \<Rightarrow> json" where
  "status_json labs = JObj [(''labs'', JArr labs)]"

text \<open>
  An environment with the default cooldown of 300 seconds in which every delivery
  succeeds, and one in which the first delivery fails. In both the set of chats is
  iterated in increasing order, as CPython does for a few small identifiers.
\<close>

definition env_of :: "(nat \<Rightarrow> int) \<Rightarrow> (nat \<Rightarrow> response) \<Rightarrow> env" where
  "env_of clk fch =
     \<lparr>alert_cooldown_sec = 300, clock = clk, send_ok = (\<lambda>n c m. True), fetch = fch,
      chat_order = (\<lambda>cs c. insort c cs)\<rparr>"

definition env_first_send_fails :: "(nat \<Rightarrow> int) \<Rightarrow> (nat \<Rightarrow> response) \<Rightarrow> env" where
  "env_first_send_fails clk fch =
     \<lparr>alert_cooldown_sec = 300, clock = clk, send_ok = (\<lambda>n c m. n \<noteq> 0), fetch = fch,
      chat_order = (\<lambda>cs c. insort c cs)\<rparr>"

text \<open>A clock that stays within one second, and a registry that always answers the same.\<close>

definition clock_frozen :: "nat \<Rightarrow> int" where
  "clock_frozen n = 1700000000"

definition fetch_always :: "json \<Rightarrow> nat \<Rightarrow> response" where
  "fetch_always j n = Parsed j"

definition fetch_fails :: "nat \<Rightarrow> response" where
  "fetch_fails n = ConnectionFailed"

text \<open>
  The clock of the cooldown scenario: the first cycle reads \<open>T0\<close> twice (decision and
  recording), the second cycle reads \<open>T0 + 10\<close>, every later reading is \<open>T0 + 301\<close>.
\<close>

definition clock_scenario :: "nat \<Rightarrow> int" where
  "clock_scenario n =
     (if n < 2 then 1700000000 else if n = 2 then 1700000010 else 1700000301)"

text \<open>Lab L1 with \<^verbatim>\<open>t_high = 30\<close> and one sensor reading \<^verbatim>\<open>t = 35\<close>.\<close>

definition snapshot_L1 :: json where
  "snapshot_L1 =
     status_json [lab_json ''L1'' [(''t_high'', JNum 30)]
                    [sensor_json ''s1'' (JNum 35) JNull]]"

text \<open>Lab L1 with \<^verbatim>\<open>t_high = 30\<close> and two sensors over the bound.\<close>

definition snapshot_L1_two :: json where
  "snapshot_L1_two =
     status_json [lab_json ''L1'' [(''t_high'', JNum 30)]
                    [sensor_json ''s1'' (JNum 35) JNull, sensor_json ''s2'' (JNum 36) JNull]]"

text \<open>Lab L2 without thresholds and a reading \<^verbatim>\<open>t = 1000, h = 1000\<close>.\<close>

definition snapshot_L2 :: json where
  "snapshot_L2 =
     status_json [lab_json ''L2'' [] [sensor_json ''s1'' (JNum 1000) (JNum 1000)]]"

text \<open>A document whose \<^verbatim>\<open>labs\<close> member is \<^verbatim>\<open>null\<close>, and one that is a list.\<close>

definition snapshot_labs_null :: json where
  "snapshot_labs_null = JObj [(''labs'', JNull)]"

definition snapshot_list :: json where
  "snapshot_list = JArr []"

text \<open>
  A process that has just started and in which chat 42, respectively chats 1 and 2, have
  registered.
\<close>

definition one_chat :: state where
  "one_chat = init\<lparr>known_chats := [42]\<rparr>"

definition two_chats :: state where
  "two_chats = init\<lparr>known_chats := [1, 2]\<rparr>"

text \<open>The state right after lab L1 fired \<open>T_high\<close> at \<open>T0\<close>.\<close>

definition after_L1_fired :: state where
  "after_L1_fired =
     one_chat\<lparr>last_alert := [(KStr ''L1'', T_high) \<mapsto> 1700000000], ticks := 2\<rparr>"

section \<open>Observations on a run\<close>

text \<open>The kind an event belongs to, and the events a command added to the history.\<close>

fun event_kind :: "event \<Rightarrow> kind" where
  "event_kind (Sent c m) = msg_kind m"
| "event_kind (Tracked k kd ts) = kd"

definition new_events :: "state \<Rightarrow> state \<Rightarrow> event list" where
  "new_events s s' = drop (length (trace s)) (trace s')"


text \<open>A clock that reads \<open>t\<close> whenever it is asked.\<close>

definition clock_at :: "int \<Rightarrow> nat \<Rightarrow> int" where
  "clock_at t n = t"

text \<open>The alert of lab L1: sensor s1 reads 35 against \<^verbatim>\<open>t_high = 30\<close>.\<close>

definition alert_L1 :: message where
  "alert_L1 = \<lparr>msg_lab = JStr ''L1'', msg_kind = T_high, msg_value = JNum 35,
               msg_bound = JNum 30, msg_sensor = JStr ''s1''\<rparr>"

text \<open>
  \<open>replay\<close> applies the recorded firings of a history to a cooldown mapping, in order.
  \<open>grows P s s'\<close>: from \<open>s\<close> to \<open>s'\<close> the history was extended by events satisfying
  \<open>P\<close>, the mapping changed by exactly the firings among them, and the recipients did not
  change.
\<close>

fun replay :: "event list \<Rightarrow> (key \<times> kind \<Rightarrow> int option) \<Rightarrow> (key \<times> kind \<Rightarrow> int option)" where
  "replay [] m = m"
| "replay (Sent c msg # es) m = replay es m"
| "replay (Tracked k kd ts # es) m = replay es (m((k, kd) \<mapsto> ts))"

definition grows :: "(event \<Rightarrow> bool) \<Rightarrow> state \<Rightarrow> state \<Rightarrow> bool" where
  "grows P s s' \<longleftrightarrow>
     known_chats s' = known_chats s \<and>
     (\<exists>evs. trace s' = trace s @ evs \<and> (\<forall>e\<in>set evs. P e) \<and>
            last_alert s' = replay evs (last_alert s))"

text \<open>An event of one lab and kind.\<close>

definition about :: "json \<Rightarrow> kind \<Rightarrow> event \<Rightarrow> bool" where
  "about lab_id kind e \<longleftrightarrow>
     (case e of Sent c m \<Rightarrow> msg_lab m = lab_id \<and> msg_kind m = kind
      | Tracked k kd ts \<Rightarrow> key_of lab_id = Inr k \<and> kd = kind)"

text \<open>A step that delivers messages at most: it reads no clock and records nothing.\<close>

definition quiet :: "state \<Rightarrow> state \<Rightarrow> bool" where
  "quiet s s' \<longleftrightarrow>
     last_alert s' = last_alert s \<and> ticks s' = ticks s \<and> known_chats s' = known_chats s \<and>
     (\<forall>p. timestamps p (trace s') = timestamps p (trace s))"

text \<open>
  The invariant behind the cooldown: every stored timestamp is a clock reading already
  made, every recorded timestamp of a pair is at most the stored one, and the recorded
  timestamps of a pair are spaced by the cooldown.
\<close>

definition cooldown_inv :: "env \<Rightarrow> state \<Rightarrow> bool" where
  "cooldown_inv env s \<longleftrightarrow>
     (\<forall>p l. last_alert s p = Some l \<longrightarrow> l \<in> clock env ` {..<ticks s}) \<and>
     (\<forall>p. \<forall>ts\<in>set (timestamps p (trace s)). \<exists>l. last_alert s p = Some l \<and> ts \<le> l) \<and>
     (\<forall>p. sorted_wrt (\<lambda>a b. alert_cooldown_sec env \<le> b - a) (timestamps p (trace s)))"

section \<open>The selection rule of the specification\<close>

text \<open>
  The bound a check compares against, \<^verbatim>\<open>thr.get(key, default)\<close>: the configured one, or
  the default of the code where the thresholds have none.
\<close>

definition bound_in_force :: "(string \<times> json) list \<Rightarrow> kind \<Rightarrow> json" where
  "bound_in_force kvs kind =
     (case map_of kvs (bound_key kind) of None \<Rightarrow> default_bound kind | Some v \<Rightarrow> v)"

text \<open>
  The definitions of this section follow the words of the specification, to be compared
  with the functions above. A reading is strictly beyond a bound: above a high bound,
  below a low one. A reading selects a kind when it is present, that is a number and not
  \<^verbatim>\<open>null\<close>, and strictly beyond the bound of that kind.
\<close>

fun exceeds :: "kind \<Rightarrow> rat \<Rightarrow> rat \<Rightarrow> bool" where
  "exceeds T_high r b = (b < r)"
| "exceeds T_low r b = (r < b)"
| "exceeds H_high r b = (b < r)"
| "exceeds H_low r b = (r < b)"

fun spec_selects :: "kind \<Rightarrow> json \<Rightarrow> rat \<Rightarrow> bool" where
  "spec_selects kind (JNum r) b = exceeds kind r b"
| "spec_selects kind _ b = False"

text \<open>
  A sensor entry of a snapshot: its identifier, and the temperature and the humidity of
  its reading, \<^verbatim>\<open>null\<close> when the entry has no reading or the reading lacks the field.
  The temperature is what the temperature kinds measure, the humidity what the humidity
  kinds measure.
\<close>

definition reading_field :: "string \<Rightarrow> json \<Rightarrow> json" where
  "reading_field name sensor =
     (case sensor of
        JObj fs \<Rightarrow>
          (case map_of fs ''reading'' of
             Some (JObj rd) \<Rightarrow> (case map_of rd name of Some v \<Rightarrow> v | None \<Rightarrow> JNull)
           | _ \<Rightarrow> JNull)
      | _ \<Rightarrow> JNull)"

fun measured :: "kind \<Rightarrow> json \<Rightarrow> json" where
  "measured T_high sensor = reading_field ''t'' sensor"
| "measured T_low sensor = reading_field ''t'' sensor"
| "measured H_high sensor = reading_field ''h'' sensor"
| "measured H_low sensor = reading_field ''h'' sensor"

definition sensor_id_of :: "json \<Rightarrow> json" where
  "sensor_id_of sensor =
     (case sensor of
        JObj fs \<Rightarrow> (case map_of fs ''sensor_id'' of Some v \<Rightarrow> v | None \<Rightarrow> JNull)
      | _ \<Rightarrow> JNull)"

text \<open>
  The shape of a sensor entry in the specification: an object whose reading is missing,
  \<^verbatim>\<open>null\<close>, or an object with an optional numeric temperature and humidity.
\<close>

fun plain_value :: "json \<Rightarrow> bool" where
  "plain_value JNull = True"
| "plain_value (JNum r) = True"
| "plain_value _ = False"

definition plain_sensor :: "json \<Rightarrow> bool" where
  "plain_sensor sensor =
     (case sensor of
        JObj fs \<Rightarrow>
          (case map_of fs ''reading'' of
             None \<Rightarrow> True
           | Some JNull \<Rightarrow> True
           | Some (JObj rd) \<Rightarrow>
               plain_value (reading_field ''t'' sensor) \<and> plain_value (reading_field ''h'' sensor)
           | Some _ \<Rightarrow> False)
      | _ \<Rightarrow> False)"

text \<open>
  The evaluator of the specification on one sensor: each of the four kinds that the
  reading selects is handed to the cooldown decision, temperature before humidity and
  high before low; a kind that is not selected is passed over.
\<close>

definition spec_alert ::
    "env \<Rightarrow> (kind \<Rightarrow> rat) \<Rightarrow> json \<Rightarrow> json \<Rightarrow> json \<Rightarrow> kind \<Rightarrow> command" where
  "spec_alert env bnd lab_id thr sensor kind =
     (if spec_selects kind (measured kind sensor) (bnd kind)
      then alert_if_due env kind lab_id (sensor_id_of sensor) thr (measured kind sensor)
      else skip)"

definition spec_eval_sensor ::
    "env \<Rightarrow> (kind \<Rightarrow> rat) \<Rightarrow> json \<Rightarrow> json \<Rightarrow> json \<Rightarrow> command" where
  "spec_eval_sensor env bnd lab_id thr sensor =
     seq (seq (spec_alert env bnd lab_id thr sensor T_high)
              (spec_alert env bnd lab_id thr sensor T_low))
         (seq (spec_alert env bnd lab_id thr sensor H_high)
              (spec_alert env bnd lab_id thr sensor H_low))"

text \<open>
  A lab entry of a snapshot: a member of it (or the default of the code where it is
  missing), its sensors and the bound in force for a kind. The shape of a lab entry in
  the specification: an object whose bounds in force are numbers and whose sensors are
  a list of sensor entries of the shape above.
\<close>

definition lab_field :: "string \<Rightarrow> json \<Rightarrow> json \<Rightarrow> json" where
  "lab_field name dflt lab =
     (case lab of
        JObj lf \<Rightarrow> (case map_of lf name of None \<Rightarrow> dflt | Some v \<Rightarrow> v)
      | _ \<Rightarrow> dflt)"

definition lab_sensors :: "json \<Rightarrow> json list" where
  "lab_sensors lab = (case lab_field ''sensors'' (JArr []) lab of JArr xs \<Rightarrow> xs | _ \<Rightarrow> [])"

definition lab_bound :: "json \<Rightarrow> kind \<Rightarrow> rat" where
  "lab_bound lab kind =
     (case lab_field ''thresholds'' (JObj []) lab of
        JObj kvs \<Rightarrow> (case bound_in_force kvs kind of JNum b \<Rightarrow> b | _ \<Rightarrow> 0)
      | _ \<Rightarrow> 0)"

fun is_number :: "json \<Rightarrow> bool" where
  "is_number (JNum r) = True"
| "is_number _ = False"

definition plain_lab :: "json \<Rightarrow> bool" where
  "plain_lab lab =
     (case lab of
        JObj lf \<Rightarrow>
          (case lab_field ''thresholds'' (JObj []) lab of
             JObj kvs \<Rightarrow>
               list_all (\<lambda>kind. is_number (bound_in_force kvs kind)) [T_high, T_low, H_high, H_low]
               \<and> (case lab_field ''sensors'' (JArr []) lab of
                     JArr xs \<Rightarrow> list_all plain_sensor xs
                   | _ \<Rightarrow> False)
           | _ \<Rightarrow> False)
      | _ \<Rightarrow> False)"

text \<open>The evaluator of the specification on one lab: its sensors in order.\<close>

definition spec_eval_lab :: "env \<Rightarrow> json \<Rightarrow> command" where
  "spec_eval_lab env lab =
     for_each (spec_eval_sensor env (lab_bound lab) (lab_field ''lab_id'' JNull lab)
                 (lab_field ''thresholds'' (JObj []) lab))
       (lab_sensors lab)"

section \<open>Evaluating the concrete scenarios\<close>

lemmas snapshot_defs =
  snapshot_L1_def status_json_def lab_json_def sensor_json_def

lemmas scenario_defs =
  env_of_def clock_frozen_def fetch_always_def one_chat_def after_L1_fired_def
  handle_start_def init_def alert_L1_def

lemmas spec_defs =
  plain_sensor_def reading_field_def sensor_id_of_def spec_eval_sensor_def spec_alert_def

lemmas loop_defs =
  poll_cycle_def eval_lab_def eval_sensor_def eval_reading_def check_def alert_if_due_def
  should_alert_def fire_def sendMessage_def track_alert_def seq_def skip_def py_gt_def

section \<open>Relations carried through sequences and loops\<close>

text \<open>
  A reflexive and transitive relation between the state before and after that every
  step of a loop establishes holds across the loop, wherever an exception cuts it short.
\<close>

lemma seq_rel:
  assumes trans: "\<And>a b c. R a b \<Longrightarrow> R b c \<Longrightarrow> R a c"
    and f: "R s (snd (f s))" and g: "\<And>s'. R s' (snd (g s'))"
  shows "R s (snd (seq f g s))"
proof (cases "f s")
  case (Pair r s1)
  show ?thesis
  proof (cases r)
    case None
    have "R s s1" using f Pair by simp
    moreover have "R s1 (snd (g s1))" by (rule g)
    ultimately show ?thesis using Pair None by (simp add: seq_def trans)
  next
    case (Some e)
    then show ?thesis using f Pair by (simp add: seq_def)
  qed
qed

lemma for_each_rel:
  assumes refl: "\<And>s. R s s" and trans: "\<And>a b c. R a b \<Longrightarrow> R b c \<Longrightarrow> R a c"
    and step: "\<And>x s. R s (snd (f x s))"
  shows "R s (snd (for_each f xs s))"
proof (induction xs arbitrary: s)
  case Nil
  show ?case by (simp add: refl)
next
  case (Cons x xs)
  show ?case
  proof (cases "f x s")
    case (Pair r s1)
    have one: "R s s1" using step [of s x] Pair by simp
    show ?thesis
    proof (cases r)
      case None
      have "R s1 (snd (for_each f xs s1))" by (rule Cons.IH)
      with one have "R s (snd (for_each f xs s1))" by (rule trans)
      then show ?thesis using Pair None by simp
    next
      case (Some e)
      then show ?thesis using one Pair by simp
    qed
  qed
qed

section \<open>Histories\<close>

lemma timestamps_append: "timestamps p (xs @ ys) = timestamps p xs @ timestamps p ys"
  by (induction p xs rule: timestamps.induct) simp_all

lemma replay_append: "replay (xs @ ys) m = replay ys (replay xs m)"
proof (induction xs arbitrary: m)
  case Nil
  show ?case by simp
next
  case (Cons e es)
  show ?case by (cases e) (simp_all only: append_Cons replay.simps Cons.IH)
qed

lemma replay_untouched: "timestamps p evs = [] \<Longrightarrow> replay evs m p = m p"
proof (induction evs arbitrary: m)
  case Nil
  show ?case by simp
next
  case (Cons e es)
  show ?case
  proof (cases e)
    case (Sent c msg)
    then show ?thesis using Cons by simp
  next
    case (Tracked k kd ts)
    with Cons.prems have ne: "p \<noteq> (k, kd)" and rest: "timestamps p es = []"
      by (simp_all split: if_splits)
    have "replay es (m((k, kd) \<mapsto> ts)) p = (m((k, kd) \<mapsto> ts)) p"
      using rest by (rule Cons.IH)
    then show ?thesis using Tracked ne by simp
  qed
qed

lemma timestamps_other:
  assumes "\<forall>e\<in>set evs. \<forall>k kd ts. e = Tracked k kd ts \<longrightarrow> (k, kd) = q" and "p \<noteq> q"
  shows "timestamps p evs = []"
  using assms
proof (induction evs)
  case Nil
  show ?case by simp
next
  case (Cons e es)
  then show ?case by (cases e) auto
qed

lemma grows_refl: "grows P s s"
  by (simp add: grows_def)

lemma grows_trans:
  assumes "grows P a b" and "grows P b c"
  shows "grows P a c"
proof -
  obtain e1 where e1: "trace b = trace a @ e1" "\<forall>e\<in>set e1. P e"
      "last_alert b = replay e1 (last_alert a)"
    using assms(1) unfolding grows_def by blast
  obtain e2 where e2: "trace c = trace b @ e2" "\<forall>e\<in>set e2. P e"
      "last_alert c = replay e2 (last_alert b)"
    using assms(2) unfolding grows_def by blast
  have "trace c = trace a @ (e1 @ e2)" using e1 e2 by simp
  moreover have "\<forall>e\<in>set (e1 @ e2). P e" using e1 e2 by auto
  moreover have "last_alert c = replay (e1 @ e2) (last_alert a)"
    using e1 e2 by (simp add: replay_append)
  moreover have "known_chats c = known_chats a" using assms by (simp add: grows_def)
  ultimately show ?thesis unfolding grows_def by blast
qed

lemma grows_silent:
  "known_chats s' = known_chats s \<Longrightarrow> trace s' = trace s \<Longrightarrow> last_alert s' = last_alert s
   \<Longrightarrow> grows P s s'"
  by (simp add: grows_def)

lemma grows_one:
  assumes "known_chats s' = known_chats s" and "trace s' = trace s @ [e]" and "P e"
    and "last_alert s' = replay [e] (last_alert s)"
  shows "grows P s s'"
  unfolding grows_def using assms by (intro conjI exI [of _ "[e]"]) simp_all

lemma grows_weaken: "grows P s s' \<Longrightarrow> (\<And>e. P e \<Longrightarrow> Q e) \<Longrightarrow> grows Q s s'"
  unfolding grows_def by blast

lemma grows_new_events:
  assumes "grows P s s'"
  shows "known_chats s' = known_chats s"
    and "\<forall>e\<in>set (new_events s s'). P e"
    and "last_alert s' = replay (new_events s s') (last_alert s)"
  using assms unfolding grows_def new_events_def by auto

lemma quiet_refl: "quiet s s"
  by (simp add: quiet_def)

lemma quiet_trans: "quiet a b \<Longrightarrow> quiet b c \<Longrightarrow> quiet a c"
  by (simp add: quiet_def)

section \<open>What each function adds to the history\<close>

lemma sendMessage_quiet: "quiet s (snd (sendMessage env msg chat s))"
  by (simp add: sendMessage_def quiet_def Let_def timestamps_append)

lemma send_all_quiet: "quiet s (snd (for_each (sendMessage env msg) cs s))"
  by (rule for_each_rel [where R = quiet]) (auto intro: quiet_refl quiet_trans sendMessage_quiet)

lemma send_all_ticks:
  "last_alert (snd (for_each (sendMessage env msg) cs s)) = last_alert s
   \<and> ticks (snd (for_each (sendMessage env msg) cs s)) = ticks s"
  using send_all_quiet [of s env msg cs] by (simp add: quiet_def)

lemma sendMessage_grows: "P (Sent chat msg) \<Longrightarrow> grows P s (snd (sendMessage env msg chat s))"
  by (cases "send_ok env (sends s) chat msg")
     (auto simp: sendMessage_def Let_def intro: grows_silent grows_one)

lemma track_alert_grows:
  assumes "\<And>k ts. key_of lab_id = Inr k \<Longrightarrow> P (Tracked k kind ts)"
  shows "grows P s (snd (track_alert env lab_id kind s))"
  using assms
  by (cases "key_of lab_id") (auto simp: track_alert_def Let_def intro: grows_silent grows_one)

lemma should_alert_grows: "grows P s (snd (should_alert env lab_id kind s))"
  by (cases "key_of lab_id") (auto simp: should_alert_def Let_def intro: grows_silent)

lemma fire_grows:
  assumes "\<And>chat. P (Sent chat msg)" and "\<And>k ts. key_of lab_id = Inr k \<Longrightarrow> P (Tracked k kind ts)"
  shows "grows P s (snd (fire env lab_id kind msg s))"
  unfolding fire_def
proof (rule seq_rel [where R = "grows P"])
  show "grows P s (snd (for_each (sendMessage env msg) (known_chats s) s))"
    by (rule for_each_rel [where R = "grows P"])
       (auto intro: grows_refl grows_trans sendMessage_grows assms)
qed (auto intro: grows_trans track_alert_grows assms)

lemma alert_if_due_grows:
  "grows (about lab_id kind) s (snd (alert_if_due env kind lab_id sid thr v s))"
proof (cases "should_alert env lab_id kind s")
  case (Pair d s1)
  have g1: "grows (about lab_id kind) s s1"
    using should_alert_grows [of "about lab_id kind" s env lab_id kind] Pair by simp
  show ?thesis
  proof (cases d)
    case (Inl e)
    then show ?thesis using Pair g1 by (simp add: alert_if_due_def)
  next
    case (Inr ok)
    show ?thesis
    proof (cases "ok \<and> (\<exists>b. py_get thr (bound_key kind) JNull = Inr b)")
      case False
      then show ?thesis using Pair Inr g1
        by (auto simp: alert_if_due_def split: sum.splits)
    next
      case True
      then obtain b where b: "py_get thr (bound_key kind) JNull = Inr b" and ok by blast
      let ?msg = "\<lparr>msg_lab = lab_id, msg_kind = kind, msg_value = v, msg_bound = b,
                  msg_sensor = sid\<rparr>"
      have "grows (about lab_id kind) s1 (snd (fire env lab_id kind ?msg s1))"
        by (rule fire_grows) (simp_all add: about_def)
      with g1 have "grows (about lab_id kind) s (snd (fire env lab_id kind ?msg s1))"
        by (rule grows_trans)
      then show ?thesis using Pair Inr b \<open>ok\<close> by (simp add: alert_if_due_def)
    qed
  qed
qed

lemma check_rel:
  assumes refl: "\<And>s. R s s"
    and due: "R s (snd (alert_if_due env kind lab_id sid thr v s))"
  shows "R s (snd (check env kind lab_id sid thr v s))"
  using refl due by (auto simp: check_def split: sum.splits)

lemma check_grows: "grows (about lab_id kind) s (snd (check env kind lab_id sid thr v s))"
  by (rule check_rel) (auto intro: grows_refl alert_if_due_grows)

lemma eval_reading_rel:
  assumes refl: "\<And>s. R s s" and trans: "\<And>a b c. R a b \<Longrightarrow> R b c \<Longrightarrow> R a c"
    and chk_t: "\<And>kind s. t \<noteq> JNull \<Longrightarrow> kind = T_high \<or> kind = T_low \<Longrightarrow>
                  R s (snd (check env kind lab_id sid thr t s))"
    and chk_h: "\<And>kind s. h \<noteq> JNull \<Longrightarrow> kind = H_high \<or> kind = H_low \<Longrightarrow>
                  R s (snd (check env kind lab_id sid thr h s))"
  shows "R s (snd (eval_reading env lab_id sid thr t h s))"
proof -
  have part: "R s (snd ((if v \<noteq> JNull
                then seq (check env k1 lab_id sid thr v) (check env k2 lab_id sid thr v)
                else skip) s))"
    if "\<And>kind s. v \<noteq> JNull \<Longrightarrow> kind = k1 \<or> kind = k2 \<Longrightarrow>
          R s (snd (check env kind lab_id sid thr v s))" for v k1 k2 s
  proof (cases "v = JNull")
    case True
    then show ?thesis by (simp add: skip_def refl)
  next
    case False
    have one: "R s (snd (check env kind lab_id sid thr v s))"
      if "kind = k1 \<or> kind = k2" for kind s
      using \<open>\<And>kind s. v \<noteq> JNull \<Longrightarrow> kind = k1 \<or> kind = k2 \<Longrightarrow>
          R s (snd (check env kind lab_id sid thr v s))\<close> False that by blast
    have "R s (snd (seq (check env k1 lab_id sid thr v) (check env k2 lab_id sid thr v) s))"
    proof (rule seq_rel [where R = R])
      show "R a c" if "R a b" "R b c" for a b c using that by (rule trans)
      show "R s (snd (check env k1 lab_id sid thr v s))" by (rule one) simp
      show "R s' (snd (check env k2 lab_id sid thr v s'))" for s' by (rule one) simp
    qed
    then show ?thesis using False by simp
  qed
  show ?thesis
    unfolding eval_reading_def
  proof (rule seq_rel [where R = R])
    show "R a c" if "R a b" "R b c" for a b c using that by (rule trans)
    show "R s (snd ((if t \<noteq> JNull
                then seq (check env T_high lab_id sid thr t) (check env T_low lab_id sid thr t)
                else skip) s))"
      by (rule part) (rule chk_t)
    show "R s' (snd ((if h \<noteq> JNull
                then seq (check env H_high lab_id sid thr h) (check env H_low lab_id sid thr h)
                else skip) s'))" for s'
      by (rule part) (rule chk_h)
  qed
qed

lemma eval_sensor_rel:
  assumes refl: "\<And>s. R s s"
    and rd: "\<And>sid t h s. R s (snd (eval_reading env lab_id sid thr t h s))"
  shows "R s (snd (eval_sensor env lab_id thr sensor s))"
  using refl rd by (auto simp: eval_sensor_def Let_def split: sum.splits)

lemma eval_lab_rel:
  assumes refl: "\<And>s. R s s" and trans: "\<And>a b c. R a b \<Longrightarrow> R b c \<Longrightarrow> R a c"
    and sn: "\<And>lab_id thr sensor s. R s (snd (eval_sensor env lab_id thr sensor s))"
  shows "R s (snd (eval_lab env lab s))"
proof -
  have "R s (snd (for_each (eval_sensor env lab_id thr) xs s))" for lab_id thr xs
    by (rule for_each_rel [where R = R]) (auto intro: refl trans sn)
  then show ?thesis using refl by (auto simp: eval_lab_def split: sum.splits)
qed

lemma poll_cycle_rel:
  assumes refl: "\<And>s. R s s" and trans: "\<And>a b c. R a b \<Longrightarrow> R b c \<Longrightarrow> R a c"
    and fch: "\<And>s. R s (s\<lparr>fetches := Suc (fetches s)\<rparr>)"
    and chk: "\<And>kind lab_id sid thr v s. R s (snd (check env kind lab_id sid thr v s))"
  shows "R s (snd (poll_cycle env s))"
proof -
  have rd: "R s (snd (eval_reading env lab_id sid thr t h s))" for lab_id sid thr t h s
    by (rule eval_reading_rel [where R = R]) (auto intro: refl trans chk)
  have sn: "R s (snd (eval_sensor env lab_id thr sensor s))" for lab_id thr sensor s
    by (rule eval_sensor_rel [where R = R]) (auto intro: refl rd)
  have lab: "R s (snd (eval_lab env lab s))" for lab s
    by (rule eval_lab_rel [where R = R]) (auto intro: refl trans sn)
  have labs: "R s (snd (for_each (eval_lab env) ls (s\<lparr>fetches := Suc (fetches s)\<rparr>)))" for ls
  proof -
    have "R (s\<lparr>fetches := Suc (fetches s)\<rparr>)
            (snd (for_each (eval_lab env) ls (s\<lparr>fetches := Suc (fetches s)\<rparr>)))"
      by (rule for_each_rel [where R = R]) (auto intro: refl trans lab)
    with fch show ?thesis by (rule trans)
  qed
  show ?thesis using refl fch labs by (auto simp: poll_cycle_def Let_def split: sum.splits)
qed

lemma poll_cycle_grows: "grows (\<lambda>e. True) s (snd (poll_cycle env s))"
proof (rule poll_cycle_rel [where R = "grows (\<lambda>e. True)"])
  show "grows (\<lambda>e. True) s (snd (check env kind lab_id sid thr v s))" for kind lab_id sid thr v s
    by (rule grows_weaken [OF check_grows]) simp
qed (auto intro: grows_refl grows_trans grows_silent)

section \<open>The evaluator on a lab of the specified shape\<close>

lemma seq_skip_skip: "seq skip skip = skip"
  by (rule ext) (simp add: seq_def skip_def)

lemma for_each_cong_set:
  "(\<And>x s. x \<in> set xs \<Longrightarrow> f x s = g x s) \<Longrightarrow> for_each f xs s = for_each g xs s"
  by (induction xs arbitrary: s) (auto split: prod.splits option.splits)

lemma check_numeric:
  assumes "(case map_of kvs (bound_key kind) of None \<Rightarrow> default_bound kind | Some v \<Rightarrow> v) = JNum b"
  shows "check env kind lab_id sid (JObj kvs) (JNum r) =
           (if exceeds kind r b then alert_if_due env kind lab_id sid (JObj kvs) (JNum r) else skip)"
proof -
  have g: "py_get (JObj kvs) (bound_key kind) (default_bound kind) = Inr (JNum b)"
    using assms by simp
  have "beyond kind (JNum r) (JNum b) = Inr (exceeds kind r b)"
    by (cases kind) (simp_all add: py_gt_def)
  then show ?thesis
    by (rule_tac ext) (simp add: check_def g skip_def del: py_get.simps)
qed

lemma eval_reading_plain:
  assumes bounds: "\<And>kind. (case map_of kvs (bound_key kind) of None \<Rightarrow> default_bound kind
                              | Some v \<Rightarrow> v) = JNum (bnd kind)"
    and t: "plain_value t" and h: "plain_value h"
  shows "eval_reading env lab_id sid (JObj kvs) t h =
           seq (seq (if spec_selects T_high t (bnd T_high)
                     then alert_if_due env T_high lab_id sid (JObj kvs) t else skip)
                    (if spec_selects T_low t (bnd T_low)
                     then alert_if_due env T_low lab_id sid (JObj kvs) t else skip))
               (seq (if spec_selects H_high h (bnd H_high)
                     then alert_if_due env H_high lab_id sid (JObj kvs) h else skip)
                    (if spec_selects H_low h (bnd H_low)
                     then alert_if_due env H_low lab_id sid (JObj kvs) h else skip))"
proof -
  have part: "(if v \<noteq> JNull
               then seq (check env k1 lab_id sid (JObj kvs) v) (check env k2 lab_id sid (JObj kvs) v)
               else skip) =
              seq (if spec_selects k1 v (bnd k1)
                   then alert_if_due env k1 lab_id sid (JObj kvs) v else skip)
                  (if spec_selects k2 v (bnd k2)
                   then alert_if_due env k2 lab_id sid (JObj kvs) v else skip)"
    if "plain_value v" for v k1 k2
  proof (cases v)
    case JNull
    then show ?thesis by (simp add: seq_skip_skip)
  next
    case (JNum r)
    then show ?thesis
      by (simp only: check_numeric [OF bounds] spec_selects.simps) simp
  qed (use that in simp_all)
  show ?thesis unfolding eval_reading_def by (simp only: part [OF t] part [OF h])
qed

lemma eval_sensor_plain:
  assumes bounds: "\<And>kind. (case map_of kvs (bound_key kind) of None \<Rightarrow> default_bound kind
                              | Some v \<Rightarrow> v) = JNum (bnd kind)"
    and plain: "plain_sensor sensor"
  shows "eval_sensor env lab_id (JObj kvs) sensor s =
           spec_eval_sensor env bnd lab_id (JObj kvs) sensor s"
proof -
  obtain fs where fs: "sensor = JObj fs"
    using plain by (cases sensor) (simp_all add: plain_sensor_def)
  let ?t = "reading_field ''t'' sensor" and ?h = "reading_field ''h'' sensor"
  have pv: "plain_value ?t" "plain_value ?h"
    using plain fs
    by (auto simp: plain_sensor_def reading_field_def split: option.splits json.splits)
  have "eval_sensor env lab_id (JObj kvs) sensor s =
          eval_reading env lab_id (sensor_id_of sensor) (JObj kvs) ?t ?h s"
    using plain fs
    by (auto simp: eval_sensor_def plain_sensor_def reading_field_def sensor_id_of_def Let_def
             split: option.splits json.splits)
  also have "\<dots> = spec_eval_sensor env bnd lab_id (JObj kvs) sensor s"
    by (simp only: eval_reading_plain [OF bounds pv] spec_eval_sensor_def spec_alert_def
                   measured.simps)
  finally show ?thesis .
qed

lemma eval_lab_plain:
  assumes thr: "(case map_of lf ''thresholds'' of None \<Rightarrow> JObj [] | Some v \<Rightarrow> v) = JObj kvs"
    and bounds: "\<And>kind. (case map_of kvs (bound_key kind) of None \<Rightarrow> default_bound kind
                              | Some v \<Rightarrow> v) = JNum (bnd kind)"
    and sensors: "(case map_of lf ''sensors'' of None \<Rightarrow> JArr [] | Some v \<Rightarrow> v) = JArr sensors"
    and plain: "\<And>x. x \<in> set sensors \<Longrightarrow> plain_sensor x"
  shows "eval_lab env (JObj lf) s =
           for_each (spec_eval_sensor env bnd
                       (case map_of lf ''lab_id'' of None \<Rightarrow> JNull | Some v \<Rightarrow> v) (JObj kvs))
             sensors s"
proof -
  let ?lab_id = "case map_of lf ''lab_id'' of None \<Rightarrow> JNull | Some v \<Rightarrow> v"
  have "eval_lab env (JObj lf) s = for_each (eval_sensor env ?lab_id (JObj kvs)) sensors s"
    using thr sensors by (simp add: eval_lab_def)
  also have "\<dots> = for_each (spec_eval_sensor env bnd ?lab_id (JObj kvs)) sensors s"
    by (rule for_each_cong_set) (rule eval_sensor_plain [OF bounds plain])
  finally show ?thesis .
qed

lemma alert_if_due_hashable:
  assumes "key_of lab_id = Inr k"
  shows "alert_if_due env kind lab_id sid (JObj kvs) v s =
           (if alert_cooldown_sec env
                 \<le> clock env (ticks s) - (case last_alert s (k, kind) of None \<Rightarrow> 0 | Some l \<Rightarrow> l)
            then fire env lab_id kind
                   \<lparr>msg_lab = lab_id, msg_kind = kind, msg_value = v,
                    msg_bound = (case map_of kvs (bound_key kind) of None \<Rightarrow> JNull | Some b \<Rightarrow> b),
                    msg_sensor = sid\<rparr>
                   (s\<lparr>ticks := Suc (ticks s)\<rparr>)
            else (None, s\<lparr>ticks := Suc (ticks s)\<rparr>))"
  using assms by (simp add: alert_if_due_def should_alert_def)

lemma alert_if_due_reads_clock:
  assumes "key_of lab_id = Inr k"
  shows "ticks s < ticks (snd (alert_if_due env kind lab_id sid thr v s))"
proof -
  have f: "ticks s' \<le> ticks (snd (fire env lab_id kind msg s'))" for msg s'
  proof -
    obtain r s2 where s2: "for_each (sendMessage env msg) (known_chats s') s' = (r, s2)"
      by (cases "for_each (sendMessage env msg) (known_chats s') s'")
    have "ticks s2 = ticks s'" using send_all_ticks [of env msg "known_chats s'" s'] s2 by simp
    then show ?thesis using s2 assms
      by (cases r) (auto simp: fire_def seq_def track_alert_def Let_def)
  qed
  have "Suc (ticks s) \<le> ticks (snd (alert_if_due env kind lab_id sid thr v s))"
    using assms f [of "s\<lparr>ticks := Suc (ticks s)\<rparr>"]
    by (auto simp: alert_if_due_def should_alert_def Let_def split: sum.splits)
  then show ?thesis by simp
qed

lemma eval_lab_spec:
  assumes "plain_lab lab"
  shows "eval_lab env lab s = spec_eval_lab env lab s"
proof -
  obtain lf where lf: "lab = JObj lf"
    using assms by (cases lab) (simp_all add: plain_lab_def)
  obtain kvs where thr: "lab_field ''thresholds'' (JObj []) lab = JObj kvs"
    using assms lf by (cases "lab_field ''thresholds'' (JObj []) lab") (simp_all add: plain_lab_def)
  obtain xs where sn: "lab_field ''sensors'' (JArr []) lab = JArr xs"
    using assms lf thr
    by (cases "lab_field ''sensors'' (JArr []) lab") (simp_all add: plain_lab_def)
  have nums: "is_number (bound_in_force kvs kind)" for kind
    using assms lf thr by (cases kind) (simp_all add: plain_lab_def)
  have b: "(case map_of kvs (bound_key kind) of None \<Rightarrow> default_bound kind | Some v \<Rightarrow> v)
             = JNum (lab_bound lab kind)" for kind
    using nums [of kind]
    by (cases "bound_in_force kvs kind") (simp_all add: lab_bound_def thr bound_in_force_def)
  have pl: "plain_sensor x" if "x \<in> set xs" for x
    using assms lf thr sn that by (simp add: plain_lab_def list_all_iff)
  have t': "(case map_of lf ''thresholds'' of None \<Rightarrow> JObj [] | Some v \<Rightarrow> v) = JObj kvs"
    using thr lf by (simp add: lab_field_def)
  have s': "(case map_of lf ''sensors'' of None \<Rightarrow> JArr [] | Some v \<Rightarrow> v) = JArr xs"
    using sn lf by (simp add: lab_field_def)
  have "eval_lab env (JObj lf) s =
          for_each (spec_eval_sensor env (lab_bound lab)
                      (case map_of lf ''lab_id'' of None \<Rightarrow> JNull | Some v \<Rightarrow> v) (JObj kvs)) xs s"
    by (rule eval_lab_plain [OF t' b s' pl])
  then show ?thesis
    using lf thr sn by (simp add: spec_eval_lab_def lab_sensors_def lab_field_def)
qed

lemma poll_cycle_spec:
  assumes chats: "known_chats s \<noteq> []"
    and doc: "registry_get (fetch env (fetches s)) = JObj d"
    and labs: "map_of d ''labs'' = Some (JArr labs)"
    and plain: "\<And>lab. lab \<in> set labs \<Longrightarrow> plain_lab lab"
  shows "poll_cycle env s =
           for_each (spec_eval_lab env) labs (s\<lparr>fetches := Suc (fetches s)\<rparr>)"
proof -
  have "poll_cycle env s = for_each (eval_lab env) labs (s\<lparr>fetches := Suc (fetches s)\<rparr>)"
    using chats doc labs by (simp add: poll_cycle_def)
  also have "\<dots> = for_each (spec_eval_lab env) labs (s\<lparr>fetches := Suc (fetches s)\<rparr>)"
    by (rule for_each_cong_set) (rule eval_lab_spec [OF plain])
  finally show ?thesis .
qed

section \<open>An absent bound\<close>

lemma py_lt_num: "num_of a = Some x \<Longrightarrow> num_of b = Some y \<Longrightarrow> py_lt a b = Inr (x < y)"
  by (cases a) (auto split: if_splits)

lemma check_absent:
  assumes "map_of kvs (bound_key kind) = None" and "num_of v = Some r"
  shows "check env kind lab_id sid (JObj kvs) v s =
           (if (if kind = T_high \<or> kind = H_high then 999 < r else r < - 999)
            then alert_if_due env kind lab_id sid (JObj kvs) v s else (None, s))"
  using assms by (cases kind) (simp_all add: check_def py_gt_def py_lt_num)

text \<open>
  C1, as the code has it. A bound missing from the thresholds is replaced by 999 (high)
  or -999 (low). For a numeric reading and a lab identifier that can be a key, the check
  of a kind without a configured bound fires exactly when the reading is strictly beyond
  that default and the cooldown allows it; it consumes a clock reading and nothing else
  when the reading is beyond the default within the cooldown, and returns at once when
  the reading is within the default. A lab without any bound is evaluated, sensor by
  sensor, by the selection rule with the bounds 999 and -999.
\<close>

theorem absent_bound_defaults:
  "(map_of kvs (bound_key kind) = None \<and> num_of v = Some r \<and> key_of lab_id = Inr k \<longrightarrow>
      check env kind lab_id sid (JObj kvs) v s =
        (if (if kind = T_high \<or> kind = H_high then 999 < r else r < - 999)
         then (if alert_cooldown_sec env
                    \<le> clock env (ticks s)
                        - (case last_alert s (k, kind) of None \<Rightarrow> 0 | Some l \<Rightarrow> l)
               then fire env lab_id kind
                      \<lparr>msg_lab = lab_id, msg_kind = kind, msg_value = v, msg_bound = JNull,
                       msg_sensor = sid\<rparr>
                      (s\<lparr>ticks := Suc (ticks s)\<rparr>)
               else (None, s\<lparr>ticks := Suc (ticks s)\<rparr>))
         else (None, s)))
   \<and> ((case map_of lf ''thresholds'' of None \<Rightarrow> JObj [] | Some v \<Rightarrow> v) = JObj bare
        \<and> (\<forall>kind. map_of bare (bound_key kind) = None)
        \<and> (case map_of lf ''sensors'' of None \<Rightarrow> JArr [] | Some v \<Rightarrow> v) = JArr sensors
        \<and> (\<forall>x\<in>set sensors. plain_sensor x) \<longrightarrow>
      eval_lab env (JObj lf) s =
        for_each (spec_eval_sensor env
                    (\<lambda>kind. if kind = T_high \<or> kind = H_high then 999 else - 999)
                    (case map_of lf ''lab_id'' of None \<Rightarrow> JNull | Some v \<Rightarrow> v) (JObj bare))
          sensors s)"
proof (intro conjI impI)
  assume a: "map_of kvs (bound_key kind) = None \<and> num_of v = Some r \<and> key_of lab_id = Inr k"
  then have ab: "map_of kvs (bound_key kind) = None" and nv: "num_of v = Some r"
    and k: "key_of lab_id = Inr k"
    by simp_all
  have c: "check env kind lab_id sid (JObj kvs) v s =
           (if (if kind = T_high \<or> kind = H_high then 999 < r else r < - 999)
            then alert_if_due env kind lab_id sid (JObj kvs) v s else (None, s))"
    using ab nv by (rule check_absent)
  have d: "alert_if_due env kind lab_id sid (JObj kvs) v s =
           (if alert_cooldown_sec env
                 \<le> clock env (ticks s) - (case last_alert s (k, kind) of None \<Rightarrow> 0 | Some l \<Rightarrow> l)
            then fire env lab_id kind
                   \<lparr>msg_lab = lab_id, msg_kind = kind, msg_value = v, msg_bound = JNull,
                    msg_sensor = sid\<rparr>
                   (s\<lparr>ticks := Suc (ticks s)\<rparr>)
            else (None, s\<lparr>ticks := Suc (ticks s)\<rparr>))"
    by (simp only: alert_if_due_hashable [OF k] ab option.case)
  show "check env kind lab_id sid (JObj kvs) v s =
        (if (if kind = T_high \<or> kind = H_high then 999 < r else r < - 999)
         then (if alert_cooldown_sec env
                    \<le> clock env (ticks s)
                        - (case last_alert s (k, kind) of None \<Rightarrow> 0 | Some l \<Rightarrow> l)
               then fire env lab_id kind
                      \<lparr>msg_lab = lab_id, msg_kind = kind, msg_value = v, msg_bound = JNull,
                       msg_sensor = sid\<rparr>
                      (s\<lparr>ticks := Suc (ticks s)\<rparr>)
               else (None, s\<lparr>ticks := Suc (ticks s)\<rparr>))
         else (None, s))"
    by (simp only: c d)
next
  assume a: "(case map_of lf ''thresholds'' of None \<Rightarrow> JObj [] | Some v \<Rightarrow> v) = JObj bare
        \<and> (\<forall>kind. map_of bare (bound_key kind) = None)
        \<and> (case map_of lf ''sensors'' of None \<Rightarrow> JArr [] | Some v \<Rightarrow> v) = JArr sensors
        \<and> (\<forall>x\<in>set sensors. plain_sensor x)"
  let ?bnd = "\<lambda>kind. if kind = T_high \<or> kind = H_high then 999 else - 999 :: rat"
  have thr: "(case map_of lf ''thresholds'' of None \<Rightarrow> JObj [] | Some v \<Rightarrow> v) = JObj bare"
    and sn: "(case map_of lf ''sensors'' of None \<Rightarrow> JArr [] | Some v \<Rightarrow> v) = JArr sensors"
    and pl: "\<And>x. x \<in> set sensors \<Longrightarrow> plain_sensor x"
    and ab: "\<And>kind. map_of bare (bound_key kind) = None"
    using a by simp_all
  have b: "(case map_of bare (bound_key kind) of None \<Rightarrow> default_bound kind | Some v \<Rightarrow> v)
             = JNum (?bnd kind)" for kind
    by (cases kind) (simp_all add: ab del: bound_key.simps)
  show "eval_lab env (JObj lf) s =
        for_each (spec_eval_sensor env ?bnd
                    (case map_of lf ''lab_id'' of None \<Rightarrow> JNull | Some v \<Rightarrow> v) (JObj bare))
          sensors s"
    by (rule eval_lab_plain [OF thr b sn pl])
qed

theorem absent_bound_defaults_witness:
  "map_of [] (bound_key T_high) = None \<and> map_of [] (bound_key T_low) = None
   \<and> num_of (JNum 1000) = Some 1000 \<and> key_of (JStr ''L2'') = Inr (KStr ''L2'')
   \<and> check (env_of clock_frozen (fetch_always snapshot_L2)) T_high (JStr ''L2'') (JStr ''s1'')
        (JObj []) (JNum 999) one_chat = (None, one_chat)
   \<and> trace (snd (check (env_of clock_frozen (fetch_always snapshot_L2)) T_high (JStr ''L2'')
                   (JStr ''s1'') (JObj []) (JNum 1000) one_chat))
       = [Sent 42 \<lparr>msg_lab = JStr ''L2'', msg_kind = T_high, msg_value = JNum 1000,
                   msg_bound = JNull, msg_sensor = JStr ''s1''\<rparr>,
          Tracked (KStr ''L2'') T_high 1700000000]
   \<and> check (env_of clock_frozen (fetch_always snapshot_L2)) T_low (JStr ''L2'') (JStr ''s1'')
        (JObj []) (JNum (- 999)) one_chat = (None, one_chat)
   \<and> trace (snd (check (env_of clock_frozen (fetch_always snapshot_L2)) T_low (JStr ''L2'')
                   (JStr ''s1'') (JObj []) (JNum (- 1000)) one_chat))
       = [Sent 42 \<lparr>msg_lab = JStr ''L2'', msg_kind = T_low, msg_value = JNum (- 1000),
                   msg_bound = JNull, msg_sensor = JStr ''s1''\<rparr>,
          Tracked (KStr ''L2'') T_low 1700000000]
   \<and> plain_sensor (sensor_json ''s1'' (JNum 1000) (JNum 1000))
   \<and> trace (snd (eval_lab (env_of clock_frozen (fetch_always snapshot_L2))
                   (lab_json ''L2'' [] [sensor_json ''s1'' (JNum 1000) (JNum 1000)]) one_chat))
       = [Sent 42 \<lparr>msg_lab = JStr ''L2'', msg_kind = T_high, msg_value = JNum 1000,
                   msg_bound = JNull, msg_sensor = JStr ''s1''\<rparr>,
          Tracked (KStr ''L2'') T_high 1700000000,
          Sent 42 \<lparr>msg_lab = JStr ''L2'', msg_kind = H_high, msg_value = JNum 1000,
                   msg_bound = JNull, msg_sensor = JStr ''s1''\<rparr>,
          Tracked (KStr ''L2'') H_high 1700000000]"
proof -
  let ?env = "env_of clock_frozen (fetch_always snapshot_L2)"
  note a = absent_bound_defaults [where env = ?env and lab_id = "JStr ''L2''" and k = "KStr ''L2''"
      and sid = "JStr ''s1''" and kvs = "[]" and s = one_chat and bare = "[]"
      and lf = "[(''lab_id'', JStr ''L2''), (''thresholds'', JObj []),
                 (''sensors'', JArr [sensor_json ''s1'' (JNum 1000) (JNum 1000)])]"
      and sensors = "[sensor_json ''s1'' (JNum 1000) (JNum 1000)]"]
  show ?thesis
    using a [where kind = T_high and v = "JNum 999" and r = 999]
      a [where kind = T_high and v = "JNum 1000" and r = 1000]
      a [where kind = T_low and v = "JNum (- 999)" and r = "- 999"]
      a [where kind = T_low and v = "JNum (- 1000)" and r = "- 1000"]
    by (simp add: scenario_defs lab_json_def sensor_json_def spec_defs fire_def seq_def skip_def
                  sendMessage_def track_alert_def alert_if_due_def should_alert_def)
qed

text \<open>
  The claim as stated fails on its own scenario: lab L2 has no thresholds, the reading is
  \<^verbatim>\<open>t = 1000, h = 1000\<close>, and both high alerts fire.
\<close>

theorem absent_bound_fires_counterexample:
  "trace (snd (poll_cycle (env_of clock_frozen (fetch_always snapshot_L2)) one_chat)) =
       [Sent 42 \<lparr>msg_lab = JStr ''L2'', msg_kind = T_high, msg_value = JNum 1000,
                 msg_bound = JNull, msg_sensor = JStr ''s1''\<rparr>,
        Tracked (KStr ''L2'') T_high 1700000000,
        Sent 42 \<lparr>msg_lab = JStr ''L2'', msg_kind = H_high, msg_value = JNum 1000,
                 msg_bound = JNull, msg_sensor = JStr ''s1''\<rparr>,
        Tracked (KStr ''L2'') H_high 1700000000]"
  by (simp add: scenario_defs snapshot_L2_def snapshot_defs loop_defs)

section \<open>Spacing of recorded firings\<close>

lemma cooldown_inv_ticks:
  "cooldown_inv env s \<Longrightarrow> cooldown_inv env (s\<lparr>ticks := Suc (ticks s)\<rparr>)"
  by (simp add: cooldown_inv_def lessThan_Suc)

lemma cooldown_inv_fetches:
  "cooldown_inv env s \<Longrightarrow> cooldown_inv env (s\<lparr>fetches := n\<rparr>)"
  by (simp add: cooldown_inv_def)

lemma cooldown_inv_quiet: "quiet s s' \<Longrightarrow> cooldown_inv env s \<Longrightarrow> cooldown_inv env s'"
  by (simp add: cooldown_inv_def quiet_def)

lemma cooldown_inv_record:
  assumes mono: "mono (clock env)" and inv: "cooldown_inv env s"
    and due: "alert_cooldown_sec env \<le> clock env n - (case last_alert s p of None \<Rightarrow> 0 | Some l \<Rightarrow> l)"
    and n: "n \<le> ticks s" and p: "p = (k, kind)"
  shows "cooldown_inv env
           (s\<lparr>ticks := Suc (ticks s), last_alert := (last_alert s)(p \<mapsto> clock env (ticks s)),
              trace := trace s @ [Tracked k kind (clock env (ticks s))]\<rparr>)"
    (is "cooldown_inv env ?s'")
proof -
  let ?now = "clock env (ticks s)"
  have past: "\<And>q l. last_alert s q = Some l \<Longrightarrow> l \<le> ?now"
  proof -
    fix q l assume "last_alert s q = Some l"
    then have "l \<in> clock env ` {..<ticks s}"
      using inv unfolding cooldown_inv_def by blast
    then obtain m where "m < ticks s" "l = clock env m"
      by auto
    then show "l \<le> ?now" using mono by (simp add: monoD)
  qed
  have old: "\<And>ts. ts \<in> set (timestamps p (trace s)) \<Longrightarrow>
               ts \<le> ?now \<and> alert_cooldown_sec env \<le> ?now - ts"
  proof -
    fix ts assume "ts \<in> set (timestamps p (trace s))"
    then obtain l where l: "last_alert s p = Some l" "ts \<le> l"
      using inv unfolding cooldown_inv_def by blast
    have "clock env n \<le> ?now" using mono n by (simp add: monoD)
    with due l past [OF l(1)] show "ts \<le> ?now \<and> alert_cooldown_sec env \<le> ?now - ts"
      by simp
  qed
  have i1: "\<And>q l. last_alert s q = Some l \<Longrightarrow> l \<in> clock env ` {..<ticks s}"
    and i2: "\<And>q ts. ts \<in> set (timestamps q (trace s)) \<Longrightarrow> \<exists>l. last_alert s q = Some l \<and> ts \<le> l"
    and i3: "\<And>q. sorted_wrt (\<lambda>a b. alert_cooldown_sec env \<le> b - a) (timestamps q (trace s))"
    using inv unfolding cooldown_inv_def by blast+
  have 1: "l \<in> clock env ` {..<ticks ?s'}" if "last_alert ?s' q = Some l" for q l
    using that i1 [of q l] by (simp add: lessThan_Suc split: if_splits)
  have 2: "\<exists>l. last_alert ?s' q = Some l \<and> ts \<le> l"
    if "ts \<in> set (timestamps q (trace ?s'))" for q ts
  proof (cases "q = p")
    case True
    then show ?thesis using that old [of ts] by (auto simp: timestamps_append p)
  next
    case False
    then show ?thesis using that i2 [of ts q] by (auto simp: timestamps_append p)
  qed
  have 3: "sorted_wrt (\<lambda>a b. alert_cooldown_sec env \<le> b - a) (timestamps q (trace ?s'))" for q
    using i3 [of q] old by (auto simp: timestamps_append sorted_wrt_append p)
  show ?thesis unfolding cooldown_inv_def using 1 2 3 by blast
qed

lemma alert_if_due_inv:
  assumes mono: "mono (clock env)" and inv: "cooldown_inv env s"
  shows "cooldown_inv env (snd (alert_if_due env kind lab_id sid thr v s))"
proof (cases "key_of lab_id")
  case (Inl e)
  then show ?thesis using inv by (simp add: alert_if_due_def should_alert_def)
next
  case (Inr k)
  let ?s1 = "s\<lparr>ticks := Suc (ticks s)\<rparr>"
  let ?last = "case last_alert s (k, kind) of None \<Rightarrow> 0 | Some l \<Rightarrow> l"
  let ?ok = "alert_cooldown_sec env \<le> clock env (ticks s) - ?last"
  have sa: "should_alert env lab_id kind s = (Inr ?ok, ?s1)"
    using Inr by (simp add: should_alert_def)
  have inv1: "cooldown_inv env ?s1" using inv by (rule cooldown_inv_ticks)
  show ?thesis
  proof (cases "?ok")
    case False
    then show ?thesis using sa inv1 by (simp add: alert_if_due_def)
  next
    case True
    show ?thesis
    proof (cases "py_get thr (bound_key kind) JNull")
      case (Inl e)
      then show ?thesis using sa True inv1 by (simp add: alert_if_due_def)
    next
      case shown: (Inr b)
      let ?msg = "\<lparr>msg_lab = lab_id, msg_kind = kind, msg_value = v, msg_bound = b,
                  msg_sensor = sid\<rparr>"
      obtain r s2 where s2: "for_each (sendMessage env ?msg) (known_chats ?s1) ?s1 = (r, s2)"
        by (cases "for_each (sendMessage env ?msg) (known_chats ?s1) ?s1")
      have q: "quiet ?s1 s2" using send_all_quiet [of ?s1 env ?msg "known_chats ?s1"] s2 by simp
      have inv2: "cooldown_inv env s2" using q inv1 by (rule cooldown_inv_quiet)
      have res: "alert_if_due env kind lab_id sid thr v s =
                   (case r of Some e \<Rightarrow> (Some e, s2) | None \<Rightarrow> track_alert env lab_id kind s2)"
        using sa True shown s2 by (simp add: alert_if_due_def fire_def seq_def split: option.splits)
      show ?thesis
      proof (cases r)
        case (Some e)
        then show ?thesis using res inv2 by simp
      next
        case None
        have la: "last_alert s2 = last_alert s" and tk: "ticks s2 = Suc (ticks s)"
          using q by (simp_all add: quiet_def)
        have due: "alert_cooldown_sec env \<le> clock env (ticks s)
                     - (case last_alert s2 (k, kind) of None \<Rightarrow> 0 | Some l \<Rightarrow> l)"
          using True la by simp
        have "cooldown_inv env
           (s2\<lparr>ticks := Suc (ticks s2), last_alert := (last_alert s2)((k, kind) \<mapsto> clock env (ticks s2)),
              trace := trace s2 @ [Tracked k kind (clock env (ticks s2))]\<rparr>)"
          by (rule cooldown_inv_record [OF mono inv2 due]) (simp_all add: tk)
        then show ?thesis using res None Inr by (simp add: track_alert_def Let_def)
      qed
    qed
  qed
qed

lemma poll_cycle_inv:
  assumes mono: "mono (clock env)" and inv: "cooldown_inv env s"
  shows "cooldown_inv env (snd (poll_cycle env s))"
proof -
  let ?R = "\<lambda>s s'. cooldown_inv env s \<longrightarrow> cooldown_inv env s'"
  have "?R s (snd (poll_cycle env s))"
  proof (rule poll_cycle_rel [where R = ?R])
    show "?R s (snd (check env kind lab_id sid thr v s))" for kind lab_id sid thr v s
      by (rule check_rel [where R = ?R]) (auto intro: alert_if_due_inv mono)
  qed (auto intro: cooldown_inv_fetches)
  with inv show ?thesis by simp
qed

lemma cooldown_inv_init: "cooldown_inv env init"
  by (simp add: cooldown_inv_def init_def)

lemma cooldown_inv_handle_start:
  "cooldown_inv env s \<Longrightarrow> cooldown_inv env (handle_start env c s)"
  by (simp add: cooldown_inv_def handle_start_def)

lemma poll_alerts_inv:
  assumes mono: "mono (clock env)"
  shows "cooldown_inv env s \<Longrightarrow> cooldown_inv env (snd (poll_alerts env schedule s))"
proof (induction schedule arbitrary: s)
  case Nil
  then show ?case by simp
next
  case (Cons st rest)
  show ?case
  proof (cases st)
    case Poll
    obtain r s' where c: "poll_cycle env s = (r, s')" by (cases "poll_cycle env s")
    have inv': "cooldown_inv env s'"
      using poll_cycle_inv [OF mono Cons.prems] c by simp
    show ?thesis
    proof (cases r)
      case None
      then show ?thesis using Poll c Cons.IH [OF inv'] by simp
    next
      case (Some e)
      then show ?thesis using Poll c inv' by simp
    qed
  next
    case (Start c)
    then show ?thesis using Cons.IH [OF cooldown_inv_handle_start [OF Cons.prems]] by simp
  qed
qed

lemma mono_clock_scenario: "mono clock_scenario"
  by (rule monoI) (simp add: clock_scenario_def)

text \<open>
  C2. Along every execution of the loop from process start, with chats registering at
  any point and whatever the registry returns, the timestamps recorded for one
  (lab, kind) pair are spaced: a later one is at least the cooldown after every earlier
  one. Time is what \<^verbatim>\<open>time.time()\<close> reads; the readings are taken not to decrease.
\<close>

theorem cooldown_spacing:
  assumes "mono (clock env)" and "poll_alerts env schedule init = (r, s)"
  shows "sorted_wrt (\<lambda>a b. alert_cooldown_sec env \<le> b - a) (timestamps (k, kind) (trace s))"
proof -
  have "cooldown_inv env (snd (poll_alerts env schedule init))"
    using assms(1) cooldown_inv_init by (rule poll_alerts_inv)
  then show ?thesis using assms(2) by (simp add: cooldown_inv_def)
qed

theorem cooldown_spacing_witness:
  "mono (clock (env_of clock_scenario (fetch_always snapshot_L1)))
   \<and> timestamps (KStr ''L1'', T_high)
        (trace (snd (poll_alerts (env_of clock_scenario (fetch_always snapshot_L1))
                       [Start 42, Poll, Poll, Poll] init)))
       = [1700000000, 1700000301]
   \<and> sorted_wrt (\<lambda>a b. alert_cooldown_sec (env_of clock_scenario (fetch_always snapshot_L1)) \<le> b - a)
       (timestamps (KStr ''L1'', T_high)
          (trace (snd (poll_alerts (env_of clock_scenario (fetch_always snapshot_L1))
                         [Start 42, Poll, Poll, Poll] init))))"
proof -
  let ?env = "env_of clock_scenario (fetch_always snapshot_L1)"
  have m: "mono (clock ?env)" by (simp add: env_of_def mono_clock_scenario)
  have run: "poll_alerts ?env [Start 42, Poll, Poll, Poll] init =
               (fst (poll_alerts ?env [Start 42, Poll, Poll, Poll] init),
                snd (poll_alerts ?env [Start 42, Poll, Poll, Poll] init))"
    by simp
  have ts: "timestamps (KStr ''L1'', T_high)
        (trace (snd (poll_alerts ?env [Start 42, Poll, Poll, Poll] init)))
       = [1700000000, 1700000301]"
    by (simp add: scenario_defs clock_scenario_def snapshot_defs loop_defs)
  show ?thesis using m ts cooldown_spacing [OF m run, of "KStr ''L1''" T_high] by simp
qed

section \<open>A pair that has never fired\<close>

text \<open>
  C3, as the code has it. For a pair without an entry in \<^verbatim>\<open>_last_alert\<close> the elapsed
  time is measured from 0, the epoch, not from process start: \<^verbatim>\<open>should_alert\<close> answers
  whether the clock reading itself has reached the cooldown.
\<close>

theorem never_fired_counts_from_zero:
  assumes "key_of lab_id = Inr k" and "last_alert s (k, kind) = None"
  shows "should_alert env lab_id kind s =
           (Inr (alert_cooldown_sec env \<le> clock env (ticks s)), s\<lparr>ticks := Suc (ticks s)\<rparr>)"
  using assms by (simp add: should_alert_def)

theorem never_fired_counts_from_zero_witness:
  "key_of (JStr ''L1'') = Inr (KStr ''L1'')
   \<and> last_alert one_chat (KStr ''L1'', T_high) = None
   \<and> fst (should_alert (env_of clock_frozen (fetch_always snapshot_L1)) (JStr ''L1'') T_high
            one_chat) = Inr True"
proof -
  have k: "key_of (JStr ''L1'') = Inr (KStr ''L1'')" by simp
  have n: "last_alert one_chat (KStr ''L1'', T_high) = None" by (simp add: scenario_defs)
  show ?thesis
    using k n never_fired_counts_from_zero
                [OF k n, of "env_of clock_frozen (fetch_always snapshot_L1)"]
    by (simp add: env_of_def clock_frozen_def)
qed

text \<open>
  The claim as stated fails: the process has just started (no clock reading made yet, the
  first one is the second \<open>1700000000\<close> of the start, so less than 300 seconds have
  passed since then), the pair has never fired, and the first cycle fires.
\<close>

theorem never_fired_suppressed_counterexample:
  "last_alert one_chat (KStr ''L1'', T_high) = None \<and> ticks one_chat = 0
   \<and> clock (env_of clock_frozen (fetch_always snapshot_L1)) 0 - 1700000000
       < alert_cooldown_sec (env_of clock_frozen (fetch_always snapshot_L1))
   \<and> trace (snd (poll_cycle (env_of clock_frozen (fetch_always snapshot_L1)) one_chat))
       = [Sent 42 alert_L1, Tracked (KStr ''L1'') T_high 1700000000]"
  by (simp add: scenario_defs snapshot_defs loop_defs)

section \<open>Two sensors over the same bound in one cycle\<close>

lemma fire_recorded:
  assumes "fire env lab_id kind msg s = (None, s1)"
  shows "\<exists>k. key_of lab_id = Inr k \<and> ticks s1 = Suc (ticks s)
             \<and> last_alert s1 (k, kind) = Some (clock env (ticks s))"
proof -
  obtain r s2 where s2: "for_each (sendMessage env msg) (known_chats s) s = (r, s2)"
    by (cases "for_each (sendMessage env msg) (known_chats s) s")
  have q: "last_alert s2 = last_alert s" "ticks s2 = ticks s"
    using send_all_ticks [of env msg "known_chats s" s] s2 by simp_all
  have r: "r = None" and t: "track_alert env lab_id kind s2 = (None, s1)"
    using assms s2 by (auto simp: fire_def seq_def split: option.splits)
  show ?thesis
    using t q by (cases "key_of lab_id") (auto simp: track_alert_def Let_def)
qed

text \<open>
  C4, as the code has it. Once a violation of a lab has fired (\<open>fire\<close> returned, so the
  timestamp read at \<open>ticks s\<close> is stored for the pair), the block of the next sensor for
  the same lab and kind goes through the same cooldown check against that timestamp:
  while the clock has advanced by less than the cooldown, it delivers nothing and records
  nothing, whatever the second sensor reads.
\<close>

theorem second_violation_cooldown:
  assumes "fire env lab_id kind msg s = (None, s1)"
    and "clock env (ticks s1) - clock env (ticks s) < alert_cooldown_sec env"
  shows "trace (snd (check env kind lab_id sid thr v s1)) = trace s1
         \<and> last_alert (snd (check env kind lab_id sid thr v s1)) = last_alert s1"
proof -
  obtain k where k: "key_of lab_id = Inr k"
    and l: "last_alert s1 (k, kind) = Some (clock env (ticks s))"
    using fire_recorded [OF assms(1)] by blast
  have "alert_if_due env kind lab_id sid thr v s1 = (None, s1\<lparr>ticks := Suc (ticks s1)\<rparr>)"
    using k l assms(2) by (simp add: alert_if_due_def should_alert_def)
  then show ?thesis by (auto simp: check_def split: sum.splits)
qed

theorem second_violation_cooldown_witness:
  "fire (env_of clock_frozen (fetch_always snapshot_L1_two)) (JStr ''L1'') T_high alert_L1
        (one_chat\<lparr>ticks := 1\<rparr>)
     = (None, snd (fire (env_of clock_frozen (fetch_always snapshot_L1_two)) (JStr ''L1'') T_high
                     alert_L1 (one_chat\<lparr>ticks := 1\<rparr>)))
   \<and> clock (env_of clock_frozen (fetch_always snapshot_L1_two))
         (ticks (snd (fire (env_of clock_frozen (fetch_always snapshot_L1_two)) (JStr ''L1'')
                        T_high alert_L1 (one_chat\<lparr>ticks := 1\<rparr>))))
       - clock (env_of clock_frozen (fetch_always snapshot_L1_two)) (ticks (one_chat\<lparr>ticks := 1\<rparr>))
       < alert_cooldown_sec (env_of clock_frozen (fetch_always snapshot_L1_two))
   \<and> trace (snd (check (env_of clock_frozen (fetch_always snapshot_L1_two)) T_high (JStr ''L1'')
                   (JStr ''s2'') (JObj [(''t_high'', JNum 30)]) (JNum 36)
                   (snd (fire (env_of clock_frozen (fetch_always snapshot_L1_two)) (JStr ''L1'')
                           T_high alert_L1 (one_chat\<lparr>ticks := 1\<rparr>)))))
       = [Sent 42 alert_L1, Tracked (KStr ''L1'') T_high 1700000000]"
proof -
  let ?env = "env_of clock_frozen (fetch_always snapshot_L1_two)"
  let ?s1 = "snd (fire ?env (JStr ''L1'') T_high alert_L1 (one_chat\<lparr>ticks := 1\<rparr>))"
  have f: "fire ?env (JStr ''L1'') T_high alert_L1 (one_chat\<lparr>ticks := 1\<rparr>) = (None, ?s1)"
    by (simp add: scenario_defs fire_def seq_def sendMessage_def track_alert_def)
  have c: "clock ?env (ticks ?s1) - clock ?env (ticks (one_chat\<lparr>ticks := 1\<rparr>))
             < alert_cooldown_sec ?env"
    by (simp add: scenario_defs)
  have t: "trace ?s1 = [Sent 42 alert_L1, Tracked (KStr ''L1'') T_high 1700000000]"
    by (simp add: scenario_defs fire_def seq_def sendMessage_def track_alert_def)
  show ?thesis
    using f c t second_violation_cooldown [OF f c, of "JStr ''s2''" "JObj [(''t_high'', JNum 30)]" "JNum 36"]
    by simp
qed

text \<open>
  The claim as stated fails: two sensors of lab L1 read 35 and 36 against
  \<^verbatim>\<open>t_high = 30\<close> in the same cycle, and the cycle delivers one message, for the first.
\<close>

theorem second_violation_fires_counterexample:
  "trace (snd (poll_cycle (env_of clock_frozen (fetch_always snapshot_L1_two)) one_chat))
     = [Sent 42 alert_L1, Tracked (KStr ''L1'') T_high 1700000000]"
  by (simp add: scenario_defs snapshot_L1_two_def snapshot_defs loop_defs alert_L1_def)

section \<open>A delivery that fails\<close>

lemma send_all_ok:
  "(\<forall>i<length cs. send_ok env (sends s + i) (cs ! i) msg) \<Longrightarrow>
   for_each (sendMessage env msg) cs s =
     (None, s\<lparr>sends := sends s + length cs, trace := trace s @ map (\<lambda>c. Sent c msg) cs\<rparr>)"
proof (induction cs arbitrary: s)
  case Nil
  show ?case by simp
next
  case (Cons c cs)
  let ?s1 = "s\<lparr>sends := Suc (sends s), trace := trace s @ [Sent c msg]\<rparr>"
  have h: "send_ok env (sends s) c msg" using Cons.prems by force
  have "\<forall>i<length cs. send_ok env (sends ?s1 + i) (cs ! i) msg"
  proof (intro allI impI)
    fix i assume "i < length cs"
    then have "send_ok env (sends s + Suc i) ((c # cs) ! Suc i) msg"
      using Cons.prems by (metis Suc_less_eq length_Cons)
    then show "send_ok env (sends ?s1 + i) (cs ! i) msg" by simp
  qed
  from Cons.IH [OF this] h show ?case by (simp add: sendMessage_def)
qed

lemma send_all_fail:
  "i < length cs \<Longrightarrow> (\<forall>j<i. send_ok env (sends s + j) (cs ! j) msg) \<Longrightarrow>
   \<not> send_ok env (sends s + i) (cs ! i) msg \<Longrightarrow>
   for_each (sendMessage env msg) cs s =
     (Some DeliveryError,
      s\<lparr>sends := sends s + i + 1, trace := trace s @ map (\<lambda>c. Sent c msg) (take i cs)\<rparr>)"
proof (induction cs arbitrary: s i)
  case Nil
  then show ?case by simp
next
  case (Cons c cs)
  show ?case
  proof (cases i)
    case 0
    then show ?thesis using Cons.prems by (simp add: sendMessage_def)
  next
    case (Suc n)
    let ?s1 = "s\<lparr>sends := Suc (sends s), trace := trace s @ [Sent c msg]\<rparr>"
    have h: "send_ok env (sends s) c msg" using Cons.prems(2) Suc by force
    have n: "n < length cs" using Cons.prems(1) Suc by simp
    have before: "\<forall>j<n. send_ok env (sends ?s1 + j) (cs ! j) msg"
    proof (intro allI impI)
      fix j assume "j < n"
      then have "send_ok env (sends s + Suc j) ((c # cs) ! Suc j) msg"
        using Cons.prems(2) Suc by (metis Suc_less_eq)
      then show "send_ok env (sends ?s1 + j) (cs ! j) msg" by simp
    qed
    have at: "\<not> send_ok env (sends ?s1 + n) (cs ! n) msg"
      using Cons.prems(3) Suc by simp
    from Cons.IH [OF n before at] h Suc show ?thesis by (simp add: sendMessage_def)
  qed
qed

text \<open>
  C5, as the code has it. With every delivery succeeding, a firing sends the message to
  each known chat in turn and then stores the timestamp. A delivery that raises is not
  caught: the chats before it have the message, the chats after it are never tried, the
  timestamp is not stored, and the exception leaves \<open>fire\<close>.
\<close>

theorem delivery_outcome:
  assumes "key_of lab_id = Inr k"
  shows "((\<forall>i<length (known_chats s). send_ok env (sends s + i) (known_chats s ! i) msg) \<longrightarrow>
            fire env lab_id kind msg s =
              (None, s\<lparr>sends := sends s + length (known_chats s), ticks := Suc (ticks s),
                       last_alert := (last_alert s)((k, kind) \<mapsto> clock env (ticks s)),
                       trace := trace s @ map (\<lambda>c. Sent c msg) (known_chats s)
                                @ [Tracked k kind (clock env (ticks s))]\<rparr>))
       \<and> (\<forall>i<length (known_chats s).
            (\<forall>j<i. send_ok env (sends s + j) (known_chats s ! j) msg)
            \<and> \<not> send_ok env (sends s + i) (known_chats s ! i) msg \<longrightarrow>
            fire env lab_id kind msg s =
              (Some DeliveryError,
               s\<lparr>sends := sends s + i + 1,
                 trace := trace s @ map (\<lambda>c. Sent c msg) (take i (known_chats s))\<rparr>))"
proof (intro conjI allI impI)
  assume "\<forall>i<length (known_chats s). send_ok env (sends s + i) (known_chats s ! i) msg"
  from send_all_ok [OF this] assms
  show "fire env lab_id kind msg s =
              (None, s\<lparr>sends := sends s + length (known_chats s), ticks := Suc (ticks s),
                       last_alert := (last_alert s)((k, kind) \<mapsto> clock env (ticks s)),
                       trace := trace s @ map (\<lambda>c. Sent c msg) (known_chats s)
                                @ [Tracked k kind (clock env (ticks s))]\<rparr>)"
    by (simp add: fire_def seq_def track_alert_def Let_def)
next
  fix i
  assume i: "i < length (known_chats s)"
    and "(\<forall>j<i. send_ok env (sends s + j) (known_chats s ! j) msg)
            \<and> \<not> send_ok env (sends s + i) (known_chats s ! i) msg"
  then have a: "\<forall>j<i. send_ok env (sends s + j) (known_chats s ! j) msg"
    and b: "\<not> send_ok env (sends s + i) (known_chats s ! i) msg" by simp_all
  from send_all_fail [OF i a b]
  show "fire env lab_id kind msg s =
              (Some DeliveryError,
               s\<lparr>sends := sends s + i + 1,
                 trace := trace s @ map (\<lambda>c. Sent c msg) (take i (known_chats s))\<rparr>)"
    by (simp add: fire_def seq_def)
qed

theorem delivery_outcome_witness:
  "key_of (JStr ''L1'') = Inr (KStr ''L1'')
   \<and> (0::nat) < length (known_chats two_chats)
   \<and> \<not> send_ok (env_first_send_fails clock_frozen (fetch_always snapshot_L1))
          (sends two_chats + 0) (known_chats two_chats ! 0) alert_L1
   \<and> fire (env_first_send_fails clock_frozen (fetch_always snapshot_L1)) (JStr ''L1'') T_high
        alert_L1 two_chats = (Some DeliveryError, two_chats\<lparr>sends := 1\<rparr>)
   \<and> known_chats two_chats = [1, 2]
   \<and> send_ok (env_of clock_frozen (fetch_always snapshot_L1)) (sends two_chats + 0) 1 alert_L1
   \<and> send_ok (env_of clock_frozen (fetch_always snapshot_L1)) (sends two_chats + 1) 2 alert_L1
   \<and> fire (env_of clock_frozen (fetch_always snapshot_L1)) (JStr ''L1'') T_high alert_L1 two_chats
       = (None, two_chats\<lparr>sends := 2, ticks := 1,
                 last_alert := [(KStr ''L1'', T_high) \<mapsto> 1700000000],
                 trace := [Sent 1 alert_L1, Sent 2 alert_L1,
                           Tracked (KStr ''L1'') T_high 1700000000]\<rparr>)"
proof -
  have k: "key_of (JStr ''L1'') = Inr (KStr ''L1'')" by simp
  show ?thesis
    using k
      delivery_outcome [OF k, of two_chats "env_first_send_fails clock_frozen (fetch_always snapshot_L1)"
                          alert_L1 T_high]
      delivery_outcome [OF k, of two_chats "env_of clock_frozen (fetch_always snapshot_L1)"
                          alert_L1 T_high]
    by (simp add: scenario_defs env_first_send_fails_def two_chats_def)
qed

text \<open>
  The claim as stated fails: with chats 1 and 2 known and the delivery to chat 1 raising,
  the cycle ends with the exception after one call of \<^verbatim>\<open>sendMessage\<close>; chat 2 gets
  nothing and no timestamp is stored for the pair.
\<close>

theorem delivery_failure_counterexample:
  "poll_cycle (env_first_send_fails clock_frozen (fetch_always snapshot_L1)) two_chats
     = (Some DeliveryError, two_chats\<lparr>fetches := 1, ticks := 1, sends := 1\<rparr>)
   \<and> known_chats two_chats = [1, 2]
   \<and> trace (two_chats\<lparr>fetches := 1, ticks := 1, sends := 1\<rparr>) = []
   \<and> last_alert (two_chats\<lparr>fetches := 1, ticks := 1, sends := 1\<rparr>) (KStr ''L1'', T_high) = None"
  by (simp add: scenario_defs env_first_send_fails_def two_chats_def snapshot_defs loop_defs)

section \<open>The cooldown decision\<close>

text \<open>
  C6. For a pair that has fired before, a violation is suppressed exactly when the clock
  reading minus the stored timestamp is below the cooldown (only the clock reading is
  consumed), and fires otherwise, a difference equal to the cooldown included.
\<close>

theorem cooldown_decision:
  assumes "key_of lab_id = Inr k" and "last_alert s (k, kind) = Some prev"
  shows "alert_if_due env kind lab_id sid (JObj kvs) v s =
           (if clock env (ticks s) - prev < alert_cooldown_sec env
            then (None, s\<lparr>ticks := Suc (ticks s)\<rparr>)
            else fire env lab_id kind
                   \<lparr>msg_lab = lab_id, msg_kind = kind, msg_value = v,
                    msg_bound = (case map_of kvs (bound_key kind) of None \<Rightarrow> JNull | Some b \<Rightarrow> b),
                    msg_sensor = sid\<rparr>
                   (s\<lparr>ticks := Suc (ticks s)\<rparr>))"
  using assms by (simp add: alert_if_due_def should_alert_def not_less)

theorem cooldown_decision_witness:
  "key_of (JStr ''L1'') = Inr (KStr ''L1'')
   \<and> last_alert after_L1_fired (KStr ''L1'', T_high) = Some 1700000000
   \<and> alert_if_due (env_of (clock_at 1700000010) (fetch_always snapshot_L1)) T_high (JStr ''L1'')
        (JStr ''s1'') (JObj [(''t_high'', JNum 30)]) (JNum 35) after_L1_fired
       = (None, after_L1_fired\<lparr>ticks := 3\<rparr>)
   \<and> trace (snd (alert_if_due (env_of (clock_at 1700000300) (fetch_always snapshot_L1)) T_high
        (JStr ''L1'') (JStr ''s1'') (JObj [(''t_high'', JNum 30)]) (JNum 35) after_L1_fired))
       = [Sent 42 alert_L1,
          Tracked (KStr ''L1'') T_high 1700000300]
   \<and> trace (snd (alert_if_due (env_of (clock_at 1700000301) (fetch_always snapshot_L1)) T_high
        (JStr ''L1'') (JStr ''s1'') (JObj [(''t_high'', JNum 30)]) (JNum 35) after_L1_fired))
       = [Sent 42 alert_L1,
          Tracked (KStr ''L1'') T_high 1700000301]"
proof -
  have k: "key_of (JStr ''L1'') = Inr (KStr ''L1'')" by simp
  have l: "last_alert after_L1_fired (KStr ''L1'', T_high) = Some 1700000000"
    by (simp add: scenario_defs clock_at_def)
  note d = cooldown_decision [OF k l, where sid = "JStr ''s1''"
                                and kvs = "[(''t_high'', JNum 30)]" and v = "JNum 35"]
  show ?thesis
    using k l d [where env = "env_of (clock_at 1700000010) (fetch_always snapshot_L1)"]
      d [where env = "env_of (clock_at 1700000300) (fetch_always snapshot_L1)"]
      d [where env = "env_of (clock_at 1700000301) (fetch_always snapshot_L1)"]
    by (simp add: scenario_defs clock_at_def clock_at_def fire_def seq_def sendMessage_def track_alert_def)
qed

text \<open>
  The scenario of the specification, run through the loop: three cycles see the same
  reading at \<open>T0\<close>, \<open>T0 + 10\<close> and \<open>T0 + 301\<close>; the first and the third fire.
\<close>

lemma scenario_L1:
  "poll_alerts (env_of clock_scenario (fetch_always snapshot_L1)) [Poll, Poll, Poll] one_chat
     = (None, one_chat\<lparr>
          last_alert := [(KStr ''L1'', T_high) \<mapsto> 1700000301], ticks := 5, sends := 2,
          fetches := 3,
          trace := [Sent 42 alert_L1,
                    Tracked (KStr ''L1'') T_high 1700000000,
                    Sent 42 alert_L1,
                    Tracked (KStr ''L1'') T_high 1700000301]\<rparr>)"
  by (simp add: scenario_defs clock_scenario_def snapshot_defs loop_defs)

section \<open>A fetch that fails\<close>

text \<open>
  C7, as the code has it. When the request fails (no connection, an error status, a body
  that is not JSON) or the document is an object without \<^verbatim>\<open>labs\<close>, the iteration only
  counts the fetch and the loop goes on to its next iteration.
\<close>

theorem fetch_failure_noop:
  assumes "known_chats s \<noteq> []"
    and "fetch env (fetches s) = ConnectionFailed \<or> fetch env (fetches s) = BadStatus
         \<or> fetch env (fetches s) = NotJson
         \<or> (\<exists>kvs. fetch env (fetches s) = Parsed (JObj kvs) \<and> map_of kvs ''labs'' = None)"
  shows "poll_cycle env s = (None, s\<lparr>fetches := Suc (fetches s)\<rparr>)
         \<and> poll_alerts env (Poll # rest) s = poll_alerts env rest (s\<lparr>fetches := Suc (fetches s)\<rparr>)"
proof -
  have "poll_cycle env s = (None, s\<lparr>fetches := Suc (fetches s)\<rparr>)"
    using assms by (auto simp: poll_cycle_def)
  then show ?thesis by simp
qed

theorem fetch_failure_noop_witness:
  "known_chats one_chat \<noteq> []
   \<and> fetch (env_of clock_frozen fetch_fails) (fetches one_chat) = ConnectionFailed
   \<and> poll_cycle (env_of clock_frozen fetch_fails) one_chat = (None, one_chat\<lparr>fetches := 1\<rparr>)
   \<and> poll_alerts (env_of clock_frozen fetch_fails) [Poll, Poll] one_chat
       = (None, one_chat\<lparr>fetches := 2\<rparr>)"
proof -
  let ?env = "env_of clock_frozen fetch_fails"
  have c: "known_chats one_chat \<noteq> []" by (simp add: scenario_defs fetch_fails_def)
  have c1: "known_chats (one_chat\<lparr>fetches := Suc (fetches one_chat)\<rparr>) \<noteq> []"
    by (simp add: scenario_defs fetch_fails_def)
  have f: "fetch ?env n = ConnectionFailed" for n by (simp add: scenario_defs fetch_fails_def)
  show ?thesis
    using c f [of "fetches one_chat"]
      fetch_failure_noop [OF c, of ?env "[Poll]"]
      fetch_failure_noop [OF c1, of ?env "[]"]
    by (simp add: scenario_defs fetch_fails_def)
qed

text \<open>
  The claim as stated fails for a document of another shape: \<^verbatim>\<open>{"labs": null}\<close> raises
  \<^verbatim>\<open>TypeError\<close> at the \<^verbatim>\<open>for\<close>, a top-level list raises \<^verbatim>\<open>AttributeError\<close> at
  \<^verbatim>\<open>data.get\<close>, and the exception ends the loop: the second iteration never runs.
\<close>

theorem malformed_response_counterexample:
  "poll_cycle (env_of clock_frozen (fetch_always snapshot_labs_null)) one_chat
     = (Some TypeError, one_chat\<lparr>fetches := 1\<rparr>)
   \<and> poll_cycle (env_of clock_frozen (fetch_always snapshot_list)) one_chat
     = (Some AttributeError, one_chat\<lparr>fetches := 1\<rparr>)
   \<and> poll_alerts (env_of clock_frozen (fetch_always snapshot_labs_null)) [Poll, Poll] one_chat
     = (Some TypeError, one_chat\<lparr>fetches := 1\<rparr>)"
  by (simp add: scenario_defs snapshot_labs_null_def snapshot_list_def snapshot_defs loop_defs)

section \<open>An empty recipient set\<close>

lemma poll_cycle_idle: "known_chats s = [] \<Longrightarrow> poll_cycle env s = (None, s)"
  by (simp add: poll_cycle_def)

lemma poll_alerts_idle:
  "known_chats s = [] \<Longrightarrow> poll_alerts env (replicate n Poll) s = (None, s)"
  by (induction n) (simp_all add: poll_cycle_idle)

text \<open>
  C8. While \<^verbatim>\<open>KNOWN_CHATS\<close> is empty, an iteration of the loop returns without an
  exception and leaves the whole state as it was: no fetch is counted, nothing is
  delivered or recorded, \<^verbatim>\<open>_last_alert\<close> is untouched; and so does any number of
  iterations in a row.
\<close>

theorem empty_recipients_idle:
  assumes "known_chats s = []"
  shows "poll_cycle env s = (None, s) \<and> poll_alerts env (replicate n Poll) s = (None, s)"
  using assms by (simp add: poll_cycle_idle poll_alerts_idle)

theorem empty_recipients_idle_witness:
  "known_chats init = []
   \<and> poll_cycle (env_of clock_frozen (fetch_always snapshot_L1)) init = (None, init)
   \<and> poll_alerts (env_of clock_frozen (fetch_always snapshot_L1)) (replicate 3 Poll) init
       = (None, init)"
proof -
  have h: "known_chats init = []" by (simp add: init_def)
  show ?thesis
    using h empty_recipients_idle [OF h, of "env_of clock_frozen (fetch_always snapshot_L1)" 3]
    by simp
qed

section \<open>Which kind a reading selects\<close>

text \<open>
  C9. On a lab entry of the specified shape the evaluator does, result and state alike,
  what the selection rule says on every sensor in order: a kind goes on to the cooldown
  decision exactly when the reading of its field is a number strictly beyond the bound
  in force (a reading equal to the bound, a \<^verbatim>\<open>null\<close> and a missing field are passed
  over, without a comparison and without an exception), for the temperature and the
  humidity, high and low alike; and an iteration of the loop that fetched a snapshot of
  such labs does so on every lab in order. Going on to the cooldown decision is
  observable: for a lab identifier that can be a key it reads the clock.
\<close>

theorem selection_rule:
  "(plain_lab lab \<longrightarrow> eval_lab env lab s = spec_eval_lab env lab s)
   \<and> (known_chats s \<noteq> [] \<and> registry_get (fetch env (fetches s)) = JObj d
        \<and> map_of d ''labs'' = Some (JArr labs) \<and> (\<forall>x\<in>set labs. plain_lab x) \<longrightarrow>
      poll_cycle env s = for_each (spec_eval_lab env) labs (s\<lparr>fetches := Suc (fetches s)\<rparr>))
   \<and> (key_of lab_id = Inr k \<longrightarrow>
        ticks s < ticks (snd (alert_if_due env kind lab_id sid thr v s)))"
  using eval_lab_spec poll_cycle_spec alert_if_due_reads_clock by blast

theorem selection_rule_witness:
  "plain_lab (lab_json ''L1'' [(''t_high'', JNum 30)]
                [sensor_json ''s1'' (JNum 30) JNull, sensor_json ''s2'' (JNum 35) JNull])
   \<and> eval_lab (env_of clock_frozen (fetch_always snapshot_L1))
        (lab_json ''L1'' [(''t_high'', JNum 30)]
           [sensor_json ''s1'' (JNum 30) JNull, sensor_json ''s2'' (JNum 35) JNull]) one_chat
       = (None, one_chat\<lparr>last_alert := [(KStr ''L1'', T_high) \<mapsto> 1700000000], ticks := 2,
                  sends := 1,
                  trace := [Sent 42 (alert_L1\<lparr>msg_sensor := JStr ''s2''\<rparr>),
                            Tracked (KStr ''L1'') T_high 1700000000]\<rparr>)
   \<and> known_chats one_chat = [42]
   \<and> registry_get (fetch (env_of clock_frozen (fetch_always snapshot_L1)) (fetches one_chat))
       = JObj [(''labs'', JArr [lab_json ''L1'' [(''t_high'', JNum 30)]
                                  [sensor_json ''s1'' (JNum 35) JNull]])]
   \<and> plain_lab (lab_json ''L1'' [(''t_high'', JNum 30)] [sensor_json ''s1'' (JNum 35) JNull])
   \<and> poll_cycle (env_of clock_frozen (fetch_always snapshot_L1)) one_chat
       = (None, one_chat\<lparr>last_alert := [(KStr ''L1'', T_high) \<mapsto> 1700000000], ticks := 2,
                  sends := 1, fetches := 1,
                  trace := [Sent 42 alert_L1, Tracked (KStr ''L1'') T_high 1700000000]\<rparr>)
   \<and> key_of (JStr ''L1'') = Inr (KStr ''L1'')
   \<and> ticks one_chat
       < ticks (snd (alert_if_due (env_of clock_frozen (fetch_always snapshot_L1)) T_high
                       (JStr ''L1'') (JStr ''s2'') (JObj [(''t_high'', JNum 30)]) (JNum 35)
                       one_chat))"
proof -
  let ?env = "env_of clock_frozen (fetch_always snapshot_L1)"
  let ?lab2 = "lab_json ''L1'' [(''t_high'', JNum 30)]
                 [sensor_json ''s1'' (JNum 30) JNull, sensor_json ''s2'' (JNum 35) JNull]"
  let ?lab1 = "lab_json ''L1'' [(''t_high'', JNum 30)] [sensor_json ''s1'' (JNum 35) JNull]"
  have p2: "plain_lab ?lab2"
    by (simp add: plain_lab_def lab_field_def lab_json_def sensor_json_def bound_in_force_def
                  spec_defs)
  have p1: "plain_lab ?lab1"
    by (simp add: plain_lab_def lab_field_def lab_json_def sensor_json_def bound_in_force_def
                  spec_defs)
  have run2: "eval_lab ?env ?lab2 one_chat
       = (None, one_chat\<lparr>last_alert := [(KStr ''L1'', T_high) \<mapsto> 1700000000], ticks := 2,
                  sends := 1,
                  trace := [Sent 42 (alert_L1\<lparr>msg_sensor := JStr ''s2''\<rparr>),
                            Tracked (KStr ''L1'') T_high 1700000000]\<rparr>)"
    by (simp add: scenario_defs lab_json_def sensor_json_def loop_defs)
  have run1: "poll_cycle ?env one_chat
       = (None, one_chat\<lparr>last_alert := [(KStr ''L1'', T_high) \<mapsto> 1700000000], ticks := 2,
                  sends := 1, fetches := 1,
                  trace := [Sent 42 alert_L1, Tracked (KStr ''L1'') T_high 1700000000]\<rparr>)"
    by (simp add: scenario_defs snapshot_defs loop_defs)
  have doc: "registry_get (fetch ?env (fetches one_chat)) = JObj [(''labs'', JArr [?lab1])]"
    by (simp add: scenario_defs snapshot_defs)
  have chats: "known_chats one_chat = [42]" by (simp add: scenario_defs)
  show ?thesis
    using p1 p2 run1 run2 doc chats
      selection_rule [where env = ?env and lab = ?lab2 and s = one_chat
        and d = "[(''labs'', JArr [?lab1])]" and labs = "[?lab1]" and lab_id = "JStr ''L1''"
        and k = "KStr ''L1''" and kind = T_high and sid = "JStr ''s2''"
        and thr = "JObj [(''t_high'', JNum 30)]" and v = "JNum 35"]
    by simp
qed

section \<open>What a firing leaves alone\<close>

lemma fire_frame:
  assumes k: "key_of lab_id = Inr k" and p: "p \<noteq> (k, kind)"
  shows "last_alert (snd (fire env lab_id kind msg s)) p = last_alert s p"
proof -
  let ?P = "\<lambda>e. \<forall>k' kd ts. e = Tracked k' kd ts \<longrightarrow> (k', kd) = (k, kind)"
  have g: "grows ?P s (snd (fire env lab_id kind msg s))"
    by (rule fire_grows) (simp_all add: k)
  have "timestamps p (new_events s (snd (fire env lab_id kind msg s))) = []"
    using grows_new_events(2) [OF g] p by (rule timestamps_other)
  then show ?thesis using grows_new_events(3) [OF g] by (simp add: replay_untouched)
qed

text \<open>
  C10. A firing for lab L and kind k leaves every other entry of \<^verbatim>\<open>_last_alert\<close> and
  the recipients as they were. Over a whole iteration of the loop the recipients are
  unchanged, an entry changes only if a firing was recorded for its pair in that
  iteration, and an iteration that adds nothing to the history leaves the mapping
  unchanged.
\<close>

theorem firing_frame:
  "(\<forall>lab_id kind msg k p. key_of lab_id = Inr k \<and> p \<noteq> (k, kind) \<longrightarrow>
      last_alert (snd (fire env lab_id kind msg s)) p = last_alert s p
      \<and> known_chats (snd (fire env lab_id kind msg s)) = known_chats s)
   \<and> known_chats (snd (poll_cycle env s)) = known_chats s
   \<and> (\<forall>p. timestamps p (new_events s (snd (poll_cycle env s))) = [] \<longrightarrow>
          last_alert (snd (poll_cycle env s)) p = last_alert s p)
   \<and> (new_events s (snd (poll_cycle env s)) = [] \<longrightarrow>
          last_alert (snd (poll_cycle env s)) = last_alert s)"
proof -
  have fk: "known_chats (snd (fire env lab_id kind msg s)) = known_chats s" for lab_id kind msg
    by (rule grows_new_events(1) [where P = "\<lambda>e. True"]) (rule fire_grows, simp_all)
  note g = poll_cycle_grows [of s env]
  show ?thesis
    using fk fire_frame grows_new_events(1) [OF g] grows_new_events(3) [OF g]
    by (auto simp: replay_untouched)
qed

theorem firing_frame_witness:
  "key_of (JStr ''L1'') = Inr (KStr ''L1'') \<and> (KStr ''L1'', T_low) \<noteq> (KStr ''L1'', T_high)
   \<and> last_alert (snd (fire (env_of clock_frozen (fetch_always snapshot_L1)) (JStr ''L1'') T_high
        alert_L1 after_L1_fired)) (KStr ''L1'', T_low)
       = last_alert after_L1_fired (KStr ''L1'', T_low)
   \<and> new_events after_L1_fired
        (snd (poll_cycle (env_of clock_frozen (fetch_always snapshot_L1)) after_L1_fired)) = []
   \<and> last_alert (snd (poll_cycle (env_of clock_frozen (fetch_always snapshot_L1)) after_L1_fired))
       = last_alert after_L1_fired"
proof -
  have ne: "new_events after_L1_fired
        (snd (poll_cycle (env_of clock_frozen (fetch_always snapshot_L1)) after_L1_fired)) = []"
    by (simp add: new_events_def scenario_defs snapshot_defs loop_defs)
  show ?thesis
    using ne firing_frame [of "env_of clock_frozen (fetch_always snapshot_L1)" after_L1_fired]
    by simp
qed

end
